(* ===== verification/Prelude.thy ===== *)
theory Prelude
  imports Main "HOL-Library.Word"
begin

text \<open>
  Shared vocabulary of the development: the machine types of the C++ sources, the
  result type of code that can abort, time points and durations, generic lemmas on
  lists and byte buffers, and the generic theory of reachable states used by
  the state machines of the components.
\<close>

section \<open>Types\<close>

type_synonym byte = "8 word"
type_synonym bytes = "byte list"
type_synonym u16 = "16 word"
type_synonym u32 = "32 word"
type_synonym u64 = "64 word"

text \<open>
  Points and durations of the steady clock, in nanoseconds
  (\<open>Event::TimePoint\<close> and \<open>Event::Duration\<close> of the event loop).
\<close>

type_synonym timepoint = int
type_synonym duration = int

abbreviation milliseconds :: "int \<Rightarrow> duration" where
  "milliseconds n \<equiv> n * 1000000"

abbreviation seconds :: "int \<Rightarrow> duration" where
  "seconds n \<equiv> n * 1000000000"

abbreviation minutes :: "int \<Rightarrow> duration" where
  "minutes n \<equiv> n * 60000000000"

text \<open>C++ exceptions: a system error with its \<open>errno\<close>, a \<open>std::runtime_error\<close>, or a thrown text.\<close>

datatype exn =
    ErrnoError string int
  | RuntimeError string int
  | ThrownText string

text \<open>
  The ways an operation can end without returning: an \<open>assert\<close> that does not hold, an
  exception that leaves a \<open>noexcept\<close> function (which calls \<open>std::terminate\<close>),
  the use of an object that was already deleted, each with the source file and the line; or
  an exception on its way to the caller.
\<close>

datatype fault =
    AssertFailure string nat
  | StdTerminate string nat
  | UseAfterFree string nat
  | Thrown exn

section \<open>Results\<close>

text \<open>
  Results are values of a sum type, \<open>Inl\<close> for a fault or for a C++ exception
  and \<open>Inr\<close> for a normal return.
\<close>

fun bind_r :: "'e + 'a \<Rightarrow> ('a \<Rightarrow> 'e + 'b) \<Rightarrow> 'e + 'b" where
  "bind_r (Inl e) f = Inl e"
| "bind_r (Inr a) f = f a"

definition assert_r :: "bool \<Rightarrow> 'e \<Rightarrow> 'e + unit" where
  "assert_r b e = (if b then Inr () else Inl e)"

text \<open>A \<open>noexcept\<close> function: an exception that would leave it ends the process.\<close>

definition noexcept :: "string \<Rightarrow> nat \<Rightarrow> fault + 'a \<Rightarrow> fault + 'a" where
  "noexcept file line r =
     (case r of Inl (Thrown e) \<Rightarrow> Inl (StdTerminate file line) | _ \<Rightarrow> r)"

named_theorems res_simps \<open>evaluation of results\<close>
named_theorems lib_laws \<open>laws of the libraries' interface\<close>
named_theorems frame \<open>fields an operation does not touch\<close>

lemma bind_r_Inr_iff [res_simps]:
  "bind_r m f = Inr b \<longleftrightarrow> (\<exists>a. m = Inr a \<and> f a = Inr b)"
  by (cases m) auto

lemma bind_r_Inl_iff [res_simps]:
  "bind_r m f = Inl e \<longleftrightarrow> m = Inl e \<or> (\<exists>a. m = Inr a \<and> f a = Inl e)"
  by (cases m) auto

lemma bind_r_assoc: "bind_r (bind_r m f) g = bind_r m (\<lambda>a. bind_r (f a) g)"
  by (cases m) auto

lemma bind_r_split:
  "P (bind_r m f) \<longleftrightarrow> (\<forall>e. m = Inl e \<longrightarrow> P (Inl e)) \<and> (\<forall>a. m = Inr a \<longrightarrow> P (f a))"
  by (cases m) auto

lemma assert_r_True [simp]: "assert_r True e = Inr ()"
  by (simp add: assert_r_def)

lemma assert_r_False [simp]: "assert_r False e = Inl e"
  by (simp add: assert_r_def)

lemma assert_r_Inr_iff [res_simps]: "assert_r b e = Inr u \<longleftrightarrow> b"
  by (simp add: assert_r_def)

lemma assert_r_Inl_iff [res_simps]: "assert_r b e = Inl f \<longleftrightarrow> \<not> b \<and> f = e"
  by (auto simp: assert_r_def)

lemma noexcept_Inr [simp]: "noexcept f n (Inr a) = Inr a"
  by (simp add: noexcept_def)

lemma noexcept_Inr_iff [res_simps]: "noexcept f n r = Inr a \<longleftrightarrow> r = Inr a"
  by (simp add: noexcept_def split: sum.split fault.split)

lemma isl_Inr_cases: "(\<forall>e. r \<noteq> Inl e) \<longleftrightarrow> (\<exists>a. r = Inr a)"
  by (cases r) auto

section \<open>Bytes and characters\<close>

text \<open>
  A C++ \<open>char\<close> is a HOL character, a \<open>std::byte\<close> or \<open>uint8_t\<close> an 8-bit word.
  \<open>as_chars\<close> and \<open>as_bytes\<close> are the reinterpretation of a buffer as the one or
  the other.
\<close>

definition as_chars :: "bytes \<Rightarrow> string" where
  "as_chars bs = map (\<lambda>b. char_of (unat b)) bs"

definition as_bytes :: "string \<Rightarrow> bytes" where
  "as_bytes cs = map of_char cs"

lemma length_as_chars [simp]: "length (as_chars bs) = length bs"
  by (simp add: as_chars_def)

lemma length_as_bytes [simp]: "length (as_bytes cs) = length cs"
  by (simp add: as_bytes_def)

lemma as_chars_append [simp]: "as_chars (xs @ ys) = as_chars xs @ as_chars ys"
  by (simp add: as_chars_def)

lemma as_bytes_append [simp]: "as_bytes (xs @ ys) = as_bytes xs @ as_bytes ys"
  by (simp add: as_bytes_def)

lemma unat_of_char_byte: "unat (of_char c :: byte) = of_char c"
proof -
  have "(of_char c :: byte) = of_nat (of_char c)"
    by (rule of_nat_of_char [symmetric])
  then show ?thesis
    by (simp add: unat_of_nat)
qed

lemma char_of_of_char_word [simp]: "char_of (unat (of_char c :: byte)) = c"
  by (simp add: unat_of_char_byte)

lemma as_chars_as_bytes [simp]: "as_chars (as_bytes cs) = cs"
  by (induction cs) (simp_all add: as_chars_def as_bytes_def)

lemma of_char_char_of_word [simp]: "(of_char (char_of (unat b)) :: byte) = b"
proof -
  have "unat b < 256" using unsigned_less [of b, where ?'a = nat] by simp
  then have "(of_char (char_of (unat b)) :: nat) = unat b"
    by simp
  then have "(of_nat (of_char (char_of (unat b)) :: nat) :: byte) = b"
    by simp
  then show ?thesis by (simp only: of_nat_of_char)
qed

lemma as_bytes_as_chars [simp]: "as_bytes (as_chars bs) = bs"
  by (induction bs) (simp_all add: as_chars_def as_bytes_def)

lemma as_bytes_inject [simp]: "as_bytes xs = as_bytes ys \<longleftrightarrow> xs = ys"
  by (metis as_chars_as_bytes)

lemma as_chars_inject [simp]: "as_chars xs = as_chars ys \<longleftrightarrow> xs = ys"
  by (metis as_bytes_as_chars)

text \<open>The part of a buffer from \<open>off\<close> on, \<open>n\<close> bytes long (a field of a packed struct).\<close>

definition slice :: "nat \<Rightarrow> nat \<Rightarrow> 'a list \<Rightarrow> 'a list" where
  "slice off n xs = take n (drop off xs)"

lemma length_slice [simp]: "off + n \<le> length xs \<Longrightarrow> length (slice off n xs) = n"
  by (simp add: slice_def)

lemma slice_0 [simp]: "slice 0 n xs = take n xs"
  by (simp add: slice_def)

lemma slice_append_left: "off + n \<le> length xs \<Longrightarrow> slice off n (xs @ ys) = slice off n xs"
  by (simp add: slice_def)

lemma slice_append_right:
  "length xs \<le> off \<Longrightarrow> slice off n (xs @ ys) = slice (off - length xs) n ys"
  by (simp add: slice_def)

lemma slice_concat:
  "slice off n xs @ slice (off + n) m xs = slice off (n + m) xs"
  by (simp add: slice_def take_add drop_drop add.commute [of off n])

text \<open>
  A write of \<open>bs\<close> into a fixed-size buffer at an offset, as \<open>read()\<close> into a
  subspan does.
\<close>

definition write_at :: "nat \<Rightarrow> 'a list \<Rightarrow> 'a list \<Rightarrow> 'a list" where
  "write_at off bs buf = take off buf @ bs @ drop (off + length bs) buf"

lemma length_write_at [simp]:
  "off + length bs \<le> length buf \<Longrightarrow> length (write_at off bs buf) = length buf"
  by (simp add: write_at_def)

lemma take_write_at:
  "off + length bs \<le> length buf \<Longrightarrow>
   take (off + length bs) (write_at off bs buf) = take off buf @ bs"
  by (simp add: write_at_def)

text \<open>Null-padding of a character field.\<close>

definition pad_to :: "nat \<Rightarrow> string \<Rightarrow> string" where
  "pad_to n s = s @ replicate (n - length s) (CHR 0x00)"

lemma length_pad_to [simp]: "length s \<le> n \<Longrightarrow> length (pad_to n s) = n"
  by (simp add: pad_to_def)

section \<open>Lists\<close>

lemma list_all_filter: "list_all P xs \<Longrightarrow> list_all P (filter Q xs)"
  by (induction xs) auto

lemma length_remove1_eq: "x \<in> set xs \<Longrightarrow> Suc (length (remove1 x xs)) = length xs"
  by (induction xs) auto

section \<open>Reachable states\<close>

text \<open>
  A state machine is a predicate of initial states and a step relation labelled with
  events.  A property that holds initially and is kept by each step from a reachable
  state holds in every reachable state.
\<close>

inductive reach :: "('s \<Rightarrow> bool) \<Rightarrow> ('s \<Rightarrow> 'e \<Rightarrow> 's \<Rightarrow> bool) \<Rightarrow> 's \<Rightarrow> bool"
  for ini :: "'s \<Rightarrow> bool" and stp :: "'s \<Rightarrow> 'e \<Rightarrow> 's \<Rightarrow> bool" where
  reach_init: "ini s \<Longrightarrow> reach ini stp s"
| reach_step: "reach ini stp s \<Longrightarrow> stp s e t \<Longrightarrow> reach ini stp t"

locale invariant_of =
  fixes ini :: "'s \<Rightarrow> bool"
    and stp :: "'s \<Rightarrow> 'e \<Rightarrow> 's \<Rightarrow> bool"
    and inv :: "'s \<Rightarrow> bool"
  assumes inv_init: "ini s \<Longrightarrow> inv s"
    and inv_step: "inv s \<Longrightarrow> stp s e t \<Longrightarrow> inv t"
begin

lemma reach_inv:
  assumes "reach ini stp s"
  shows "inv s"
  using assms by (induction rule: reach.induct) (auto intro: inv_init inv_step)

lemma inv_steps:
  assumes "(\<lambda>s t. \<exists>e. stp s e t)\<^sup>*\<^sup>* s t" and "inv s"
  shows "inv t"
  using assms by (induction rule: rtranclp_induct) (auto intro: inv_step)

end

end
