(* ===== verification/Libraries.thy ===== *)
theory Libraries
  imports Complex_Main Prelude
begin

unbundle bit_operations_syntax

text \<open>
  The interface of the code the program calls and whose source is not part of the
  repository: the \<open>libcommon\<close> submodule (events, sockets, containers, character
  and byte-order helpers), libsodium and the kernel.

  Pure functions of these libraries are fields of the record \<open>lib\<close>, which the
  definitions of the model take as a parameter.  A stateful library object is represented
  by the list of the calls the program made on it, newest first; what the library answers
  when it is asked about such an object (``is a read pending?'') is again a field of
  \<open>lib\<close>, a function of that list.  The locales below name the documented behaviour
  the theorems rely on; \<open>ref_lib\<close> is one instance that has all of it.
\<close>

section \<open>Addresses\<close>

text \<open>
  What a \<open>SocketAddress\<close> of libcommon can be, as far as the sources distinguish it:
  null, IPv4 (the four bytes of \<open>sin_addr\<close> and the port), IPv6 (the sixteen bytes of
  \<open>s6_addr\<close> and the port), any other family.
\<close>

datatype sock_address =
    AddrNull
  | AddrInet bytes u16
  | AddrInet6 bytes u16
  | AddrOther nat bytes

section \<open>Objects represented by their calls\<close>

datatype ev_call =
    EvCtor int
  | EvOpen int
  | EvClose
  | EvReleaseSocket
  | EvSchedule u32
  | EvScheduleRead
  | EvScheduleWrite
  | EvCancelOnlyRead
  | EvCancelOnlyWrite
  | SockSend bytes
  | SockSplice bytes
  | SockShutdownWrite

text \<open>A \<open>SocketEvent\<close> together with the calls made on its socket.\<close>

type_synonym socket_event = "ev_call list"

datatype timer_call = TmSchedule duration | TmCancel | TmFired

type_synonym timer_event = "timer_call list"

datatype connect_call = CnConnect sock_address duration | CnDone

type_synonym connect_socket = "connect_call list"

text \<open>
  One \<open>TokenBucket::Update\<close> call: the configured rate and burst, the time in
  seconds, the number of tokens taken.  Finite floating point values are rationals.
\<close>

record tb_call =
  tb_rate :: rat
  tb_burst :: rat
  tb_now :: rat
  tb_size :: rat

type_synonym token_bucket = "tb_call list"

text \<open>Where a job of the thread pool is: waiting in the queue, in a worker, or back from it.\<close>

datatype job_stage = JobWaiting | JobBusy | JobDone

section \<open>The library functions\<close>

record lib =
  IsPrintableASCII :: "char \<Rightarrow> bool"
  CheckCharsNonEmpty :: "string \<Rightarrow> (char \<Rightarrow> bool) \<Rightarrow> bool"
  ToUpperASCII :: "char \<Rightarrow> char"
  be16_store :: "u16 \<Rightarrow> bytes"
  be16_load :: "bytes \<Rightarrow> u16"
  be32_store :: "u32 \<Rightarrow> bytes"
  be32_load :: "bytes \<Rightarrow> u32"
  HostToString :: "sock_address \<Rightarrow> string"
  GetNumericAddressBE :: "bytes \<Rightarrow> u32"
  IsV4Mapped :: "bytes \<Rightarrow> bool"
  UnmapV4 :: "bytes \<Rightarrow> bytes"
  TokenBucket_available :: "token_bucket \<Rightarrow> rat"
  ToFloatSeconds :: "duration \<Rightarrow> rat"
  ev_READ :: u32
  ev_WRITE :: u32
  ev_READ_HANGUP :: u32
  ev_DEAD_MASK :: u32
  ev_IsDefined :: "socket_event \<Rightarrow> bool"
  ev_IsReadPending :: "socket_event \<Rightarrow> bool"
  ev_IsWritePending :: "socket_event \<Rightarrow> bool"
  timer_IsPending :: "timer_event \<Rightarrow> bool"
  connect_IsPending :: "connect_socket \<Rightarrow> bool"
  queue_Cancel :: "job_stage \<Rightarrow> bool"
  crypto_pwhash_STRBYTES :: nat
  crypto_pwhash_str_verify :: "string \<Rightarrow> string \<Rightarrow> int"

text \<open>The test \<open>events & mask\<close> of the sources.\<close>

definition has_event :: "u32 \<Rightarrow> u32 \<Rightarrow> bool" where
  "has_event events m = (events AND m \<noteq> 0)"

section \<open>Documented behaviour\<close>

text \<open>util/PackedBigEndian.hxx: 2 and 4 byte big-endian integers.\<close>

locale packed_be =
  fixes L :: lib
  assumes be16_length [simp]: "length (be16_store L w) = 2"
    and be32_length [simp]: "length (be32_store L v) = 4"
    and be16_load_store [simp]: "be16_load L (be16_store L w) = w"
    and be32_load_store [simp]: "be32_load L (be32_store L v) = v"
    and be16_store_load: "length bs = 2 \<Longrightarrow> be16_store L (be16_load L bs) = bs"
    and be32_store_load: "length bs = 4 \<Longrightarrow> be32_store L (be32_load L bs) = bs"

text \<open>util/CharUtil.hxx and util/StringVerify.hxx.\<close>

locale char_util =
  fixes L :: lib
  assumes CheckCharsNonEmpty_iff: "CheckCharsNonEmpty L s f \<longleftrightarrow> s \<noteq> [] \<and> list_all f s"
    and IsPrintableASCII_iff:
      "IsPrintableASCII L c \<longleftrightarrow> (0x20 \<le> (of_char c :: nat) \<and> (of_char c :: nat) < 0x7f)"
    and ToUpperASCII_idem [simp]: "ToUpperASCII L (ToUpperASCII L c) = ToUpperASCII L c"

text \<open>
  event/SocketEvent.hxx: the object is defined between opening and closing; scheduling and
  cancelling change exactly the named direction; calls on the socket itself change
  neither.
\<close>

locale event_masks =
  fixes L :: lib
  assumes READ_nonzero [simp]: "ev_READ L AND ev_READ L \<noteq> 0"
    and WRITE_nonzero [simp]: "ev_WRITE L AND ev_WRITE L \<noteq> 0"
    and READ_WRITE_disjoint [simp]: "ev_READ L AND ev_WRITE L = 0"
    and HANGUP_READ_disjoint [simp]: "ev_READ_HANGUP L AND ev_READ L = 0"
    and HANGUP_WRITE_disjoint [simp]: "ev_READ_HANGUP L AND ev_WRITE L = 0"
    and DEAD_READ_disjoint [simp]: "ev_READ L AND ev_DEAD_MASK L = 0"
    and DEAD_WRITE_disjoint [simp]: "ev_WRITE L AND ev_DEAD_MASK L = 0"

locale socket_events = event_masks +
  assumes ev_defined [simp]:
      "\<not> ev_IsDefined L []"
      "ev_IsDefined L (EvCtor fd # h)"
      "ev_IsDefined L (EvOpen fd # h)"
      "\<not> ev_IsDefined L (EvClose # h)"
      "\<not> ev_IsDefined L (EvReleaseSocket # h)"
      "ev_IsDefined L (EvSchedule f # h) = ev_IsDefined L h"
      "ev_IsDefined L (EvScheduleRead # h) = ev_IsDefined L h"
      "ev_IsDefined L (EvScheduleWrite # h) = ev_IsDefined L h"
      "ev_IsDefined L (EvCancelOnlyRead # h) = ev_IsDefined L h"
      "ev_IsDefined L (EvCancelOnlyWrite # h) = ev_IsDefined L h"
      "ev_IsDefined L (SockSend bs # h) = ev_IsDefined L h"
      "ev_IsDefined L (SockSplice bs # h) = ev_IsDefined L h"
      "ev_IsDefined L (SockShutdownWrite # h) = ev_IsDefined L h"
    and ev_read [simp]:
      "\<not> ev_IsReadPending L []"
      "\<not> ev_IsReadPending L (EvCtor fd # h)"
      "\<not> ev_IsReadPending L (EvOpen fd # h)"
      "\<not> ev_IsReadPending L (EvClose # h)"
      "\<not> ev_IsReadPending L (EvReleaseSocket # h)"
      "ev_IsReadPending L (EvSchedule f # h) = has_event f (ev_READ L)"
      "ev_IsReadPending L (EvScheduleRead # h)"
      "ev_IsReadPending L (EvScheduleWrite # h) = ev_IsReadPending L h"
      "\<not> ev_IsReadPending L (EvCancelOnlyRead # h)"
      "ev_IsReadPending L (EvCancelOnlyWrite # h) = ev_IsReadPending L h"
      "ev_IsReadPending L (SockSend bs # h) = ev_IsReadPending L h"
      "ev_IsReadPending L (SockSplice bs # h) = ev_IsReadPending L h"
      "ev_IsReadPending L (SockShutdownWrite # h) = ev_IsReadPending L h"
    and ev_write [simp]:
      "\<not> ev_IsWritePending L []"
      "\<not> ev_IsWritePending L (EvCtor fd # h)"
      "\<not> ev_IsWritePending L (EvOpen fd # h)"
      "\<not> ev_IsWritePending L (EvClose # h)"
      "\<not> ev_IsWritePending L (EvReleaseSocket # h)"
      "ev_IsWritePending L (EvSchedule f # h) = has_event f (ev_WRITE L)"
      "ev_IsWritePending L (EvScheduleRead # h) = ev_IsWritePending L h"
      "ev_IsWritePending L (EvScheduleWrite # h)"
      "ev_IsWritePending L (EvCancelOnlyRead # h) = ev_IsWritePending L h"
      "\<not> ev_IsWritePending L (EvCancelOnlyWrite # h)"
      "ev_IsWritePending L (SockSend bs # h) = ev_IsWritePending L h"
      "ev_IsWritePending L (SockSplice bs # h) = ev_IsWritePending L h"
      "ev_IsWritePending L (SockShutdownWrite # h) = ev_IsWritePending L h"

text \<open>event/CoarseTimerEvent.hxx and event/FarTimerEvent.hxx: one-shot timers.\<close>

locale timers =
  fixes L :: lib
  assumes timer_pending [simp]:
      "\<not> timer_IsPending L []"
      "timer_IsPending L (TmSchedule d # h)"
      "\<not> timer_IsPending L (TmCancel # h)"
      "\<not> timer_IsPending L (TmFired # h)"

text \<open>event/net/ConnectSocket.hxx: pending from \<open>Connect\<close> until the handler is called.\<close>

locale connecting =
  fixes L :: lib
  assumes connect_pending [simp]:
      "\<not> connect_IsPending L []"
      "connect_IsPending L (CnConnect a d # h)"
      "\<not> connect_IsPending L (CnDone # h)"

text \<open>
  thread/Queue.hxx: \<open>Cancel\<close> succeeds for a job no worker has taken yet, and only then.
\<close>

locale thread_queue =
  fixes L :: lib
  assumes queue_Cancel_iff: "queue_Cancel L s \<longleftrightarrow> s = JobWaiting"

text \<open>Everything the network side of the program relies on.\<close>

locale event_lib = socket_events + timers + connecting

section \<open>An instance\<close>

text \<open>
  One library that behaves as documented.  The theorems hold for every such library;
  concrete runs are evaluated on this one.
\<close>

fun ref_ev_defined :: "socket_event \<Rightarrow> bool" where
  "ref_ev_defined [] = False"
| "ref_ev_defined (EvCtor _ # _) = True"
| "ref_ev_defined (EvOpen _ # _) = True"
| "ref_ev_defined (EvClose # _) = False"
| "ref_ev_defined (EvReleaseSocket # _) = False"
| "ref_ev_defined (_ # h) = ref_ev_defined h"

fun ref_ev_read :: "socket_event \<Rightarrow> bool" where
  "ref_ev_read [] = False"
| "ref_ev_read (EvCtor _ # _) = False"
| "ref_ev_read (EvOpen _ # _) = False"
| "ref_ev_read (EvClose # _) = False"
| "ref_ev_read (EvReleaseSocket # _) = False"
| "ref_ev_read (EvSchedule f # _) = has_event f 1"
| "ref_ev_read (EvScheduleRead # _) = True"
| "ref_ev_read (EvCancelOnlyRead # _) = False"
| "ref_ev_read (_ # h) = ref_ev_read h"

fun ref_ev_write :: "socket_event \<Rightarrow> bool" where
  "ref_ev_write [] = False"
| "ref_ev_write (EvCtor _ # _) = False"
| "ref_ev_write (EvOpen _ # _) = False"
| "ref_ev_write (EvClose # _) = False"
| "ref_ev_write (EvReleaseSocket # _) = False"
| "ref_ev_write (EvSchedule f # _) = has_event f 4"
| "ref_ev_write (EvScheduleWrite # _) = True"
| "ref_ev_write (EvCancelOnlyWrite # _) = False"
| "ref_ev_write (_ # h) = ref_ev_write h"

fun ref_timer_pending :: "timer_event \<Rightarrow> bool" where
  "ref_timer_pending (TmSchedule _ # _) = True"
| "ref_timer_pending _ = False"

fun ref_connect_pending :: "connect_socket \<Rightarrow> bool" where
  "ref_connect_pending (CnConnect _ _ # _) = True"
| "ref_connect_pending _ = False"

definition ref_be16_store :: "u16 \<Rightarrow> bytes" where
  "ref_be16_store w = [ucast (drop_bit 8 w), ucast w]"

definition ref_be16_load :: "bytes \<Rightarrow> u16" where
  "ref_be16_load bs = push_bit 8 (ucast (bs ! 0)) OR ucast (bs ! 1)"

definition ref_be32_store :: "u32 \<Rightarrow> bytes" where
  "ref_be32_store w =
     [ucast (drop_bit 24 w), ucast (drop_bit 16 w), ucast (drop_bit 8 w), ucast w]"

definition ref_be32_load :: "bytes \<Rightarrow> u32" where
  "ref_be32_load bs =
     push_bit 24 (ucast (bs ! 0)) OR push_bit 16 (ucast (bs ! 1)) OR
     push_bit 8 (ucast (bs ! 2)) OR ucast (bs ! 3)"

definition ref_upper :: "char \<Rightarrow> char" where
  "ref_upper c =
     (let n = (of_char c :: nat) in if 97 \<le> n \<and> n \<le> 122 then char_of (n - 32) else c)"

fun ref_tokens :: "token_bucket \<Rightarrow> rat \<times> rat" where
  "ref_tokens [] = (0, 0)"
| "ref_tokens (u # h) =
     (let (level, last) = ref_tokens h;
          start = (if h = [] then tb_burst u else level);
          filled = min (tb_burst u) (start + (tb_now u - last) * tb_rate u)
      in (if filled < tb_size u then filled else filled - tb_size u, tb_now u))"

definition ref_available :: "token_bucket \<Rightarrow> rat" where
  "ref_available h =
     (case h of [] \<Rightarrow> 0
      | u # h' \<Rightarrow>
          (let (level, last) = ref_tokens h';
               start = (if h' = [] then tb_burst u else level)
           in min (tb_burst u) (start + (tb_now u - last) * tb_rate u) - tb_size u))"

definition ref_numeric :: "bytes \<Rightarrow> u32" where
  "ref_numeric bs = (if length bs = 4 then ref_be32_load bs else 0)"

definition ref_lib :: lib where
  "ref_lib =
    \<lparr> IsPrintableASCII = (\<lambda>c. 0x20 \<le> (of_char c :: nat) \<and> (of_char c :: nat) < 0x7f),
      CheckCharsNonEmpty = (\<lambda>s f. s \<noteq> [] \<and> list_all f s),
      ToUpperASCII = ref_upper,
      be16_store = ref_be16_store,
      be16_load = ref_be16_load,
      be32_store = ref_be32_store,
      be32_load = ref_be32_load,
      HostToString =
        (\<lambda>a. case a of AddrInet _ _ \<Rightarrow> ''192.0.2.1'' | AddrInet6 _ _ \<Rightarrow> ''2001:db8::1'' | _ \<Rightarrow> ''''),
      GetNumericAddressBE = ref_numeric,
      IsV4Mapped = (\<lambda>bs. take 12 bs = replicate 10 0 @ [0xff, 0xff]),
      UnmapV4 = (\<lambda>bs. drop 12 bs),
      TokenBucket_available = ref_available,
      ToFloatSeconds = (\<lambda>d. of_int d / 1000000000),
      ev_READ = 1,
      ev_WRITE = 4,
      ev_READ_HANGUP = 0x2000,
      ev_DEAD_MASK = 0x2018,
      ev_IsDefined = ref_ev_defined,
      ev_IsReadPending = ref_ev_read,
      ev_IsWritePending = ref_ev_write,
      timer_IsPending = ref_timer_pending,
      connect_IsPending = ref_connect_pending,
      queue_Cancel = (\<lambda>s. s = JobWaiting),
      crypto_pwhash_STRBYTES = 128,
      crypto_pwhash_str_verify = (\<lambda>hash password. if hash = ''$'' @ password then 0 else -1) \<rparr>"

lemmas ref_lib_simps = ref_lib_def

lemma ref_upper_idem: "ref_upper (ref_upper c) = ref_upper c"
  by (auto simp: ref_upper_def Let_def)

lemma list_length_2: "length bs = 2 \<Longrightarrow> \<exists>a b. bs = [a, b]"
  by (auto simp: numeral_2_eq_2 length_Suc_conv)

lemma list_length_4: "length bs = 4 \<Longrightarrow> \<exists>a b c d. bs = [a, b, c, d]"
  by (auto simp: numeral_eq_Suc length_Suc_conv)

lemma byte_bit_beyond: "8 \<le> n \<Longrightarrow> \<not> bit (b :: byte) n"
  using bit_imp_le_length [of b n] by auto

lemma ref_be16_load_store: "ref_be16_load (ref_be16_store w) = w"
  unfolding ref_be16_load_def ref_be16_store_def
  by (rule bit_word_eqI) (auto simp: bit_simps)

lemma ref_be16_store_load: "length bs = 2 \<Longrightarrow> ref_be16_store (ref_be16_load bs) = bs"
  by (drule list_length_2)
    (auto simp: ref_be16_load_def ref_be16_store_def bit_eq_iff bit_simps
       byte_bit_beyond)

lemma ref_be32_load_store: "ref_be32_load (ref_be32_store w) = w"
proof (rule bit_word_eqI)
  fix n :: nat
  assume "n < LENGTH(32)"
  then consider "n < 8" | "8 \<le> n" "n < 16" | "16 \<le> n" "n < 24" | "24 \<le> n" "n < 32"
    by force
  then show "bit (ref_be32_load (ref_be32_store w)) n = bit w n"
    unfolding ref_be32_load_def ref_be32_store_def
    by cases (auto simp: bit_simps)
qed

lemma ref_be32_store_load: "length bs = 4 \<Longrightarrow> ref_be32_store (ref_be32_load bs) = bs"
  by (drule list_length_4)
    (auto simp: ref_be32_load_def ref_be32_store_def bit_eq_iff bit_simps
       byte_bit_beyond)

interpretation ref_be: packed_be ref_lib
  by unfold_locales
    (simp_all add: ref_lib_def ref_be16_load_store ref_be16_store_load
       ref_be32_load_store ref_be32_store_load, simp_all add: ref_be16_store_def ref_be32_store_def)

interpretation ref_chars: char_util ref_lib
  by unfold_locales (auto simp: ref_lib_def ref_upper_idem)

interpretation ref_events: event_lib ref_lib
  by unfold_locales (auto simp: ref_lib_def)

interpretation ref_queue: thread_queue ref_lib
  by unfold_locales (simp add: ref_lib_def)

end
