(* ===== verification/Client_Accounting.thy ===== *)
theory Client_Accounting
  imports Libraries
begin

unbundle bit_operations_syntax

text \<open>
  Per-client accounting: src/net/ClientAccounting.hxx, src/net/ClientAccounting.cxx,
  src/net/AccountedClientConnection.hxx and src/net/AccountedClientConnection.cxx.

  A \<open>PerClientAccounting\<close> object is identified by its address key: the hash set of the
  \<open>ClientAccountingMap\<close> holds at most one object for a key.  A pointer to such an object
  is the key; following a pointer whose object is not in the map any more is a
  \<open>UseAfterFree\<close> fault.  The intrusive list of an object's connections is the list of
  the identities of the \<open>AccountedClientConnection\<close> objects.  \<open>now\<close> is what
  \<open>EventLoop::SteadyNow\<close> returns.
\<close>

section \<open>State\<close>

type_synonym acc_id = nat

record PerClientAccounting =
  pc_address :: u64
  pc_connections :: "acc_id list"
  pc_expires :: timepoint
  pc_tarpit_until :: timepoint
  pc_delay :: duration
  pc_token_bucket :: token_bucket
  pc_knocked :: bool

record ClientAccountingMap =
  max_connections :: nat
  tarpit :: bool
  entries :: "PerClientAccounting list"
  cleanup_timer :: timer_event

record AccountedClientConnection =
  acc_id :: acc_id
  acc_per_client :: "u64 option"

section \<open>The key of an address\<close>

fun Read64_from :: "u64 \<Rightarrow> bytes \<Rightarrow> u64" where
  "Read64_from value [] = value"
| "Read64_from value (b # bs) = Read64_from (push_bit 8 value OR ucast b) bs"

definition Read64 :: "bytes \<Rightarrow> u64" where
  "Read64 src = Read64_from 0 (take 8 src)"

definition ToInteger_in6 :: "bytes \<Rightarrow> u64" where
  "ToInteger_in6 s6_addr = Read64 s6_addr XOR Read64 (drop 8 s6_addr)"

fun ToInteger :: "lib \<Rightarrow> sock_address \<Rightarrow> u64" where
  "ToInteger L AddrNull = 0"
| "ToInteger L (AddrInet a port) = ucast (GetNumericAddressBE L a)"
| "ToInteger L (AddrInet6 a port) =
     (if IsV4Mapped L a then ucast (GetNumericAddressBE L (UnmapV4 L a))
      else ToInteger_in6 a)"
| "ToInteger L (AddrOther family a) = 0"

section \<open>Objects\<close>

text \<open>The constructor; the members without an initialiser are value-initialised.\<close>

definition new_PerClientAccounting :: "u64 \<Rightarrow> PerClientAccounting" where
  "new_PerClientAccounting address =
    \<lparr>pc_address = address, pc_connections = [], pc_expires = 0, pc_tarpit_until = 0,
     pc_delay = 0, pc_token_bucket = [], pc_knocked = False\<rparr>"

definition new_ClientAccountingMap :: "nat \<Rightarrow> bool \<Rightarrow> ClientAccountingMap" where
  "new_ClientAccountingMap max_conn tp =
    \<lparr>max_connections = max_conn, tarpit = tp, entries = [], cleanup_timer = []\<rparr>"

definition new_AccountedClientConnection :: "acc_id \<Rightarrow> AccountedClientConnection" where
  "new_AccountedClientConnection i = \<lparr>acc_id = i, acc_per_client = None\<rparr>"

definition find_entry :: "u64 \<Rightarrow> ClientAccountingMap \<Rightarrow> PerClientAccounting option" where
  "find_entry k m = find (\<lambda>pc. pc_address pc = k) (entries m)"

definition set_entry :: "PerClientAccounting \<Rightarrow> ClientAccountingMap \<Rightarrow> ClientAccountingMap" where
  "set_entry pc m =
     m\<lparr>entries := map (\<lambda>q. if pc_address q = pc_address pc then pc else q) (entries m)\<rparr>"

section \<open>Operations\<close>

text \<open>\<open>ClientAccountingMap::Get\<close>: the object of an address, created if there is none.\<close>

definition ClientAccountingMap_Get ::
    "lib \<Rightarrow> sock_address \<Rightarrow> ClientAccountingMap \<Rightarrow> u64 option \<times> ClientAccountingMap" where
  "ClientAccountingMap_Get L addr m =
    (let address = ToInteger L addr in
     if address = 0 then (None, m)
     else case find_entry address m of
       None \<Rightarrow> (Some address, m\<lparr>entries := new_PerClientAccounting address # entries m\<rparr>)
     | Some pc \<Rightarrow> (Some address, m))"

definition ScheduleCleanup :: "lib \<Rightarrow> ClientAccountingMap \<Rightarrow> ClientAccountingMap" where
  "ScheduleCleanup L m =
    (if \<not> timer_IsPending L (cleanup_timer m)
     then m\<lparr>cleanup_timer := TmSchedule (minutes 1) # cleanup_timer m\<rparr> else m)"

text \<open>\<open>PerClientAccounting::Check\<close>.\<close>

definition PerClient_Check :: "PerClientAccounting \<Rightarrow> ClientAccountingMap \<Rightarrow> bool" where
  "PerClient_Check pc m =
    (max_connections m = 0 \<or> length (pc_connections pc) < max_connections m)"

definition PerClient_AddConnection ::
    "u64 \<Rightarrow> AccountedClientConnection \<Rightarrow> ClientAccountingMap
     \<Rightarrow> fault + (ClientAccountingMap \<times> AccountedClientConnection)" where
  "PerClient_AddConnection k c m =
    bind_r (assert_r (acc_per_client c = None) (AssertFailure ''ClientAccounting.cxx'' 71)) (\<lambda>_.
    case find_entry k m of
      None \<Rightarrow> Inl (UseAfterFree ''ClientAccounting.cxx'' 73)
    | Some pc \<Rightarrow>
        Inr (set_entry (pc\<lparr>pc_connections := pc_connections pc @ [acc_id c]\<rparr>) m,
             c\<lparr>acc_per_client := Some k\<rparr>))"

definition PerClient_RemoveConnection ::
    "lib \<Rightarrow> timepoint \<Rightarrow> u64 \<Rightarrow> AccountedClientConnection \<Rightarrow> ClientAccountingMap
     \<Rightarrow> fault + (ClientAccountingMap \<times> AccountedClientConnection)" where
  "PerClient_RemoveConnection L now k c m =
    bind_r (assert_r (acc_per_client c = Some k) (AssertFailure ''ClientAccounting.cxx'' 80)) (\<lambda>_.
    case find_entry k m of
      None \<Rightarrow> Inl (UseAfterFree ''ClientAccounting.cxx'' 82)
    | Some pc \<Rightarrow>
        (let conns = remove1 (acc_id c) (pc_connections pc);
             m' = set_entry (pc\<lparr>pc_connections := conns, pc_expires := now + minutes 5\<rparr>) m
         in Inr (if conns = [] then ScheduleCleanup L m' else m',
                 c\<lparr>acc_per_client := None\<rparr>)))"

definition TARPIT_FOR :: duration where "TARPIT_FOR = minutes 1"
definition MAX_DELAY :: duration where "MAX_DELAY = minutes 1"
definition DELAY_STEP :: duration where "DELAY_STEP = milliseconds 100"

definition PerClient_UpdateTokenBucket ::
    "lib \<Rightarrow> bool \<Rightarrow> timepoint \<Rightarrow> rat \<Rightarrow> PerClientAccounting \<Rightarrow> PerClientAccounting" where
  "PerClient_UpdateTokenBucket L has_tarpit now sz pc =
    (if \<not> has_tarpit then pc
     else
       let bucket = \<lparr>tb_rate = 1, tb_burst = 10, tb_now = ToFloatSeconds L now, tb_size = sz\<rparr>
                    # pc_token_bucket pc;
           available = TokenBucket_available L bucket;
           pc = pc\<lparr>pc_token_bucket := bucket\<rparr>
       in if available < 0 then
            pc\<lparr>pc_tarpit_until := now + TARPIT_FOR,
               pc_delay := (if pc_delay pc < MAX_DELAY then pc_delay pc + DELAY_STEP else pc_delay pc),
               pc_knocked := False\<rparr>
          else if now < pc_tarpit_until pc then
            pc\<lparr>pc_delay := (if pc_delay pc > DELAY_STEP then pc_delay pc - DELAY_STEP else pc_delay pc)\<rparr>
          else pc\<lparr>pc_delay := 0\<rparr>)"

text \<open>The same through a pointer, and \<open>SetKnocked\<close> through a pointer.\<close>

definition Map_UpdateTokenBucket ::
    "lib \<Rightarrow> timepoint \<Rightarrow> rat \<Rightarrow> u64 \<Rightarrow> ClientAccountingMap \<Rightarrow> fault + ClientAccountingMap" where
  "Map_UpdateTokenBucket L now sz k m =
    (case find_entry k m of
      None \<Rightarrow> Inl (UseAfterFree ''ClientAccounting.cxx'' 94)
    | Some pc \<Rightarrow> Inr (set_entry (PerClient_UpdateTokenBucket L (tarpit m) now sz pc) m))"

definition Map_SetKnocked :: "u64 \<Rightarrow> ClientAccountingMap \<Rightarrow> fault + ClientAccountingMap" where
  "Map_SetKnocked k m =
    (case find_entry k m of
      None \<Rightarrow> Inl (UseAfterFree ''ClientAccounting.hxx'' 70)
    | Some pc \<Rightarrow> Inr (set_entry (pc\<lparr>pc_knocked := True\<rparr>) m))"

text \<open>\<open>ClientAccountingMap::OnCleanupTimer\<close>: the predicate of \<open>remove_and_dispose_if\<close>.\<close>

definition cleanup_disposes :: "timepoint \<Rightarrow> PerClientAccounting \<Rightarrow> bool" where
  "cleanup_disposes now i = (pc_connections i = [] \<and> \<not> now < pc_expires i)"

definition cleanup_reschedules :: "timepoint \<Rightarrow> PerClientAccounting \<Rightarrow> bool" where
  "cleanup_reschedules now i = (pc_connections i = [] \<and> now < pc_expires i)"

definition OnCleanupTimer :: "lib \<Rightarrow> timepoint \<Rightarrow> ClientAccountingMap \<Rightarrow> ClientAccountingMap" where
  "OnCleanupTimer L now m =
    (let m' = m\<lparr>cleanup_timer := TmFired # cleanup_timer m,
                entries := filter (\<lambda>i. \<not> cleanup_disposes now i) (entries m)\<rparr>
     in if list_ex (cleanup_reschedules now) (entries m) then ScheduleCleanup L m' else m')"

definition ClientAccountingMap_Shutdown :: "ClientAccountingMap \<Rightarrow> ClientAccountingMap" where
  "ClientAccountingMap_Shutdown m = m\<lparr>cleanup_timer := TmCancel # cleanup_timer m\<rparr>"

text \<open>The destructor deletes all objects.\<close>

definition ClientAccountingMap_destroy :: "ClientAccountingMap \<Rightarrow> ClientAccountingMap" where
  "ClientAccountingMap_destroy m = m\<lparr>entries := []\<rparr>"

text \<open>src/net/AccountedClientConnection.cxx.\<close>

definition Accounted_destroy ::
    "lib \<Rightarrow> timepoint \<Rightarrow> AccountedClientConnection \<Rightarrow> ClientAccountingMap
     \<Rightarrow> fault + ClientAccountingMap" where
  "Accounted_destroy L now c m =
    (case acc_per_client c of
      None \<Rightarrow> Inr m
    | Some k \<Rightarrow> bind_r (PerClient_RemoveConnection L now k c m) (\<lambda>(m', _). Inr m'))"

definition Accounted_UpdateTokenBucket ::
    "lib \<Rightarrow> timepoint \<Rightarrow> rat \<Rightarrow> AccountedClientConnection \<Rightarrow> ClientAccountingMap
     \<Rightarrow> fault + ClientAccountingMap" where
  "Accounted_UpdateTokenBucket L now sz c m =
    (case acc_per_client c of
      None \<Rightarrow> Inr m
    | Some k \<Rightarrow> Map_UpdateTokenBucket L now sz k m)"

section \<open>Well-formed maps\<close>

text \<open>
  The type invariant: one object per key, no object for the key 0, no connection
  registered twice, delays between 0 and the maximum in steps of \<open>DELAY_STEP\<close>.
\<close>

definition wf_delay :: "duration \<Rightarrow> bool" where
  "wf_delay d \<longleftrightarrow> 0 \<le> d \<and> d \<le> MAX_DELAY \<and> d mod DELAY_STEP = 0"

definition wf_entry :: "PerClientAccounting \<Rightarrow> bool" where
  "wf_entry pc \<longleftrightarrow> pc_address pc \<noteq> 0 \<and> distinct (pc_connections pc) \<and> wf_delay (pc_delay pc)"

definition wf_map :: "ClientAccountingMap \<Rightarrow> bool" where
  "wf_map m \<longleftrightarrow> distinct (map pc_address (entries m)) \<and> list_all wf_entry (entries m)"

text \<open>The connections an object's list holds; none for a key without object.\<close>

definition conns_of :: "u64 \<Rightarrow> ClientAccountingMap \<Rightarrow> acc_id list" where
  "conns_of k m = (case find_entry k m of None \<Rightarrow> [] | Some pc \<Rightarrow> pc_connections pc)"

text \<open>
  The abstract view of the map: which connections are registered under which key.
\<close>

definition registry :: "ClientAccountingMap \<Rightarrow> (u64 \<rightharpoonup> acc_id list)" where
  "registry m k = map_option pc_connections (find_entry k m)"

section \<open>Lookup and update of objects\<close>

lemma find_entry_address: "find_entry k m = Some pc \<Longrightarrow> pc_address pc = k"
  by (auto simp: find_entry_def find_Some_iff)

lemma find_entry_mem: "find_entry k m = Some pc \<Longrightarrow> pc \<in> set (entries m)"
  by (auto simp: find_entry_def find_Some_iff)

lemma find_entry_None: "find_entry k m = None \<longleftrightarrow> k \<notin> pc_address ` set (entries m)"
  by (auto simp: find_entry_def find_None_iff)

lemma find_SomeD: "find P xs = Some x \<Longrightarrow> P x"
  by (auto simp: find_Some_iff)

lemma find_map_same_key:
  assumes "\<And>x. P (f x) = P x"
  shows "find P (map f xs) = map_option f (find P xs)"
  using assms by (induction xs) auto

lemma find_entry_set_entry:
  "find_entry k (set_entry pc m) =
   (if k = pc_address pc then map_option (\<lambda>_. pc) (find_entry k m) else find_entry k m)"
proof -
  have *: "find (\<lambda>q. pc_address q = k)
       (map (\<lambda>q. if pc_address q = pc_address pc then pc else q) xs) =
     map_option (\<lambda>q. if pc_address q = pc_address pc then pc else q)
       (find (\<lambda>q. pc_address q = k) xs)" for xs
    by (rule find_map_same_key) auto
  show ?thesis
    by (cases "find (\<lambda>q. pc_address q = k) (entries m)")
      (auto simp: find_entry_def set_entry_def * dest: find_SomeD)
qed

lemma set_entry_addresses [simp]:
  "map pc_address (entries (set_entry pc m)) = map pc_address (entries m)"
  by (auto simp: set_entry_def)

lemma set_entry_frame [frame, simp]:
  "max_connections (set_entry pc m) = max_connections m"
  "tarpit (set_entry pc m) = tarpit m"
  "cleanup_timer (set_entry pc m) = cleanup_timer m"
  by (simp_all add: set_entry_def)

lemma ScheduleCleanup_frame [frame, simp]:
  "max_connections (ScheduleCleanup L m) = max_connections m"
  "tarpit (ScheduleCleanup L m) = tarpit m"
  "entries (ScheduleCleanup L m) = entries m"
  "find_entry k (ScheduleCleanup L m) = find_entry k m"
  by (simp_all add: ScheduleCleanup_def find_entry_def)

lemma wf_map_entry: "wf_map m \<Longrightarrow> find_entry k m = Some pc \<Longrightarrow> wf_entry pc"
  by (auto simp: wf_map_def list_all_iff dest: find_entry_mem)

lemma wf_map_find:
  "wf_map m \<Longrightarrow> pc \<in> set (entries m) \<Longrightarrow> find_entry (pc_address pc) m = Some pc"
proof -
  assume wf: "wf_map m" and pc: "pc \<in> set (entries m)"
  then obtain q where q: "find_entry (pc_address pc) m = Some q"
    by (cases "find_entry (pc_address pc) m") (auto simp: find_entry_None)
  moreover from wf have "inj_on pc_address (set (entries m))"
    by (simp add: wf_map_def distinct_map)
  ultimately show ?thesis
    using pc find_entry_mem [OF q] find_entry_address [OF q] by (auto dest: inj_onD)
qed

lemma wf_map_set_entry: "wf_map m \<Longrightarrow> wf_entry pc \<Longrightarrow> wf_map (set_entry pc m)"
  unfolding wf_map_def set_entry_addresses by (auto simp: list_all_iff set_entry_def)

lemma wf_map_same_entries: "entries m' = entries m \<Longrightarrow> wf_map m' = wf_map m"
  by (simp add: wf_map_def)

lemma wf_map_ScheduleCleanup [simp]: "wf_map (ScheduleCleanup L m) = wf_map m"
  by (rule wf_map_same_entries) simp

lemma registry_set_entry:
  "find_entry (pc_address pc) m \<noteq> None \<Longrightarrow>
   registry (set_entry pc m) = (registry m)(pc_address pc \<mapsto> pc_connections pc)"
  by (rule ext) (auto simp: registry_def find_entry_set_entry)

lemma registry_ScheduleCleanup [simp]: "registry (ScheduleCleanup L m) = registry m"
  by (rule ext) (simp add: registry_def)

lemma registry_cong: "entries m' = entries m \<Longrightarrow> registry m' = registry m"
  by (rule ext) (simp add: registry_def find_entry_def)

section \<open>The token bucket and the tarpit delay\<close>

lemma wf_delay_0 [simp]: "wf_delay 0"
  by (simp add: wf_delay_def MAX_DELAY_def DELAY_STEP_def)

lemma wf_delay_up:
  assumes "wf_delay d" and "d < MAX_DELAY"
  shows "wf_delay (d + DELAY_STEP)"
proof -
  from assms obtain q where d: "d = DELAY_STEP * q"
    by (auto simp: wf_delay_def elim!: dvdE dest!: mod_0_imp_dvd)
  with assms show ?thesis
    by (auto simp: wf_delay_def MAX_DELAY_def DELAY_STEP_def)
qed

lemma wf_delay_down: "wf_delay d \<Longrightarrow> DELAY_STEP < d \<Longrightarrow> wf_delay (d - DELAY_STEP)"
  by (auto simp: wf_delay_def DELAY_STEP_def MAX_DELAY_def)

lemma UpdateTokenBucket_frame [frame, simp]:
  "pc_address (PerClient_UpdateTokenBucket L t now sz pc) = pc_address pc"
  "pc_connections (PerClient_UpdateTokenBucket L t now sz pc) = pc_connections pc"
  "pc_expires (PerClient_UpdateTokenBucket L t now sz pc) = pc_expires pc"
  by (simp_all add: PerClient_UpdateTokenBucket_def Let_def)

lemma wf_entry_UpdateTokenBucket:
  "wf_entry pc \<Longrightarrow> wf_entry (PerClient_UpdateTokenBucket L t now sz pc)"
  by (simp add: wf_entry_def PerClient_UpdateTokenBucket_def Let_def wf_delay_up wf_delay_down)

section \<open>Operations on the map\<close>

lemma Get_cases:
  obtains "ToInteger L a = 0" "ClientAccountingMap_Get L a m = (None, m)"
  | pc where "ToInteger L a \<noteq> 0" "find_entry (ToInteger L a) m = Some pc"
      "ClientAccountingMap_Get L a m = (Some (ToInteger L a), m)"
  | "ToInteger L a \<noteq> 0" "find_entry (ToInteger L a) m = None"
      "ClientAccountingMap_Get L a m =
       (Some (ToInteger L a),
        m\<lparr>entries := new_PerClientAccounting (ToInteger L a) # entries m\<rparr>)"
  by (cases "find_entry (ToInteger L a) m"; cases "ToInteger L a = 0")
    (auto simp: ClientAccountingMap_Get_def Let_def)

lemma find_entry_insert:
  "find_entry k (m\<lparr>entries := pc # entries m\<rparr>) =
   (if pc_address pc = k then Some pc else find_entry k m)"
  by (simp add: find_entry_def)

lemma wf_entry_new: "k \<noteq> 0 \<Longrightarrow> wf_entry (new_PerClientAccounting k)"
  by (simp add: wf_entry_def new_PerClientAccounting_def)

lemma wf_map_Get: "wf_map m \<Longrightarrow> wf_map (snd (ClientAccountingMap_Get L a m))"
proof (cases rule: Get_cases [of L a m])
  case 3
  assume "wf_map m"
  moreover from 3 have "ToInteger L a \<notin> pc_address ` set (entries m)"
    by (simp add: find_entry_None)
  ultimately show ?thesis
    using 3 by (auto simp: wf_map_def wf_entry_new)
      (simp add: new_PerClientAccounting_def)
qed auto

lemma registry_Get:
  "registry (snd (ClientAccountingMap_Get L a m)) =
   (case fst (ClientAccountingMap_Get L a m) of
      None \<Rightarrow> registry m
    | Some k \<Rightarrow> if k \<in> dom (registry m) then registry m else (registry m)(k \<mapsto> []))"
proof (cases rule: Get_cases [of L a m])
  case (2 pc)
  then have "ToInteger L a \<in> dom (registry m)"
    by (auto simp: registry_def)
  with 2 show ?thesis by simp
next
  case 3
  then have "ToInteger L a \<notin> dom (registry m)"
    by (auto simp: registry_def)
  with 3 show ?thesis
    by (auto simp: registry_def find_entry_insert new_PerClientAccounting_def fun_eq_iff)
qed auto

lemma AddConnection_ok:
  assumes "wf_map m" and "registry m k = Some xs" and "acc_per_client c = None"
    and "acc_id c \<notin> set xs"
  shows "\<exists>m'. PerClient_AddConnection k c m = Inr (m', c\<lparr>acc_per_client := Some k\<rparr>) \<and>
    wf_map m' \<and> registry m' = (registry m)(k \<mapsto> xs @ [acc_id c])"
proof -
  from assms(2) obtain pc where pc: "find_entry k m = Some pc" and xs: "pc_connections pc = xs"
    by (auto simp: registry_def)
  let ?pc = "pc\<lparr>pc_connections := pc_connections pc @ [acc_id c]\<rparr>"
  have k: "pc_address pc = k" using pc by (rule find_entry_address)
  have "wf_entry ?pc"
    using wf_map_entry [OF assms(1) pc] assms(4) xs by (simp add: wf_entry_def)
  then have "wf_map (set_entry ?pc m)" using assms(1) by (simp add: wf_map_set_entry)
  moreover have "registry (set_entry ?pc m) = (registry m)(k \<mapsto> xs @ [acc_id c])"
    using registry_set_entry [of ?pc m] pc k xs by simp
  ultimately show ?thesis
    using pc assms(3) by (simp add: PerClient_AddConnection_def)
qed

lemma Accounted_destroy_ok:
  assumes "wf_map m" and "acc_per_client c = Some k" and "registry m k = Some xs"
  shows "\<exists>m'. Accounted_destroy L now c m = Inr m' \<and> wf_map m' \<and>
    registry m' = (registry m)(k \<mapsto> remove1 (acc_id c) xs)"
proof -
  from assms(3) obtain pc where pc: "find_entry k m = Some pc" and xs: "pc_connections pc = xs"
    by (auto simp: registry_def)
  let ?pc = "pc\<lparr>pc_connections := remove1 (acc_id c) xs, pc_expires := now + minutes 5\<rparr>"
  let ?m = "set_entry ?pc m"
  have k: "pc_address pc = k" using pc by (rule find_entry_address)
  have "wf_entry ?pc"
    using wf_map_entry [OF assms(1) pc] xs by (simp add: wf_entry_def)
  then have wf: "wf_map ?m" using assms(1) by (simp add: wf_map_set_entry)
  have reg: "registry ?m = (registry m)(k \<mapsto> remove1 (acc_id c) xs)"
    using registry_set_entry [of ?pc m] pc k by simp
  have "Accounted_destroy L now c m =
      Inr (if remove1 (acc_id c) xs = [] then ScheduleCleanup L ?m else ?m)"
    using pc xs assms(2) by (simp add: Accounted_destroy_def PerClient_RemoveConnection_def Let_def)
  then have "\<exists>m'. Accounted_destroy L now c m = Inr m' \<and> (m' = ScheduleCleanup L ?m \<or> m' = ?m)"
    by auto
  with wf reg show ?thesis by auto
qed

lemma wf_map_release:
  assumes "wf_map m" and "Accounted_destroy L now c m = Inr m'"
  shows "wf_map m'"
proof (cases "acc_per_client c")
  case None
  with assms show ?thesis by (simp add: Accounted_destroy_def)
next
  case (Some k)
  show ?thesis
  proof (cases "find_entry k m")
    case None
    with Some assms(2) show ?thesis
      by (simp add: Accounted_destroy_def PerClient_RemoveConnection_def)
  next
    case (Some pc)
    then have "registry m k = Some (pc_connections pc)" by (simp add: registry_def)
    from Accounted_destroy_ok [OF assms(1) \<open>acc_per_client c = Some k\<close> this, of L now] assms(2)
    show ?thesis by auto
  qed
qed

lemma Map_UpdateTokenBucket_ok:
  assumes "wf_map m" and "find_entry k m = Some pc"
  shows "\<exists>m'. Map_UpdateTokenBucket L now sz k m = Inr m' \<and> wf_map m' \<and> registry m' = registry m"
proof -
  let ?pc = "PerClient_UpdateTokenBucket L (tarpit m) now sz pc"
  have "wf_map (set_entry ?pc m)"
    using assms by (blast intro: wf_map_set_entry wf_entry_UpdateTokenBucket wf_map_entry)
  moreover have "registry (set_entry ?pc m) = registry m"
    using registry_set_entry [of ?pc m] assms(2) find_entry_address [OF assms(2)]
    by (auto simp: registry_def fun_eq_iff)
  ultimately show ?thesis
    using assms(2) by (simp add: Map_UpdateTokenBucket_def)
qed

lemma Accounted_UpdateTokenBucket_ok:
  assumes "wf_map m" and "\<forall>k. acc_per_client c = Some k \<longrightarrow> k \<in> dom (registry m)"
  shows "\<exists>m'. Accounted_UpdateTokenBucket L now sz c m = Inr m' \<and> wf_map m' \<and>
    registry m' = registry m"
proof (cases "acc_per_client c")
  case None
  with assms(1) show ?thesis by (simp add: Accounted_UpdateTokenBucket_def)
next
  case (Some k)
  with assms(2) obtain pc where "find_entry k m = Some pc"
    by (auto simp: registry_def)
  from Map_UpdateTokenBucket_ok [OF assms(1) this] Some show ?thesis
    by (simp add: Accounted_UpdateTokenBucket_def)
qed

lemma Map_SetKnocked_ok:
  assumes "wf_map m" and "find_entry k m = Some pc"
  shows "\<exists>m'. Map_SetKnocked k m = Inr m' \<and> wf_map m' \<and> registry m' = registry m"
proof -
  let ?pc = "pc\<lparr>pc_knocked := True\<rparr>"
  have "wf_entry ?pc" using wf_map_entry [OF assms] by (simp add: wf_entry_def)
  moreover have "registry (set_entry ?pc m) = registry m"
    using registry_set_entry [of ?pc m] assms(2) find_entry_address [OF assms(2)]
    by (auto simp: registry_def fun_eq_iff)
  ultimately show ?thesis
    using assms by (simp add: Map_SetKnocked_def wf_map_set_entry)
qed

lemma OnCleanupTimer_entries:
  "entries (OnCleanupTimer L now m) = filter (\<lambda>i. \<not> cleanup_disposes now i) (entries m)"
  by (simp add: OnCleanupTimer_def Let_def)

lemma wf_map_OnCleanupTimer: "wf_map m \<Longrightarrow> wf_map (OnCleanupTimer L now m)"
  by (auto simp: wf_map_def OnCleanupTimer_entries distinct_map_filter list_all_filter)

lemma find_entry_OnCleanupTimer:
  assumes "wf_map m"
  shows "find_entry k (OnCleanupTimer L now m) =
    (case find_entry k m of
       None \<Rightarrow> None
     | Some pc \<Rightarrow> if cleanup_disposes now pc then None else Some pc)"
proof (cases "find_entry k m")
  case None
  then have "find_entry k (OnCleanupTimer L now m) = None"
    by (auto simp: find_entry_None OnCleanupTimer_entries)
  with None show ?thesis by simp
next
  case (Some pc)
  have k: "pc_address pc = k" using Some by (rule find_entry_address)
  have uniq: "q = pc" if "q \<in> set (entries m)" "pc_address q = k" for q
    using wf_map_find [OF assms that(1)] that(2) Some by simp
  show ?thesis
  proof (cases "cleanup_disposes now pc")
    case True
    then have "find_entry k (OnCleanupTimer L now m) = None"
      using uniq by (auto simp: find_entry_None OnCleanupTimer_entries)
    with True Some show ?thesis by simp
  next
    case False
    then have "pc \<in> set (entries (OnCleanupTimer L now m))"
      using find_entry_mem [OF Some] by (simp add: OnCleanupTimer_entries)
    from wf_map_find [OF wf_map_OnCleanupTimer [OF assms] this] k False Some
    show ?thesis by simp
  qed
qed

lemma registry_OnCleanupTimer:
  "wf_map m \<Longrightarrow>
   registry (OnCleanupTimer L now m) k = registry m k \<or>
   (registry m k = Some [] \<and> registry (OnCleanupTimer L now m) k = None)"
  by (auto simp: registry_def find_entry_OnCleanupTimer cleanup_disposes_def split: option.splits)

section \<open>The contract of the accounting\<close>

text \<open>
  How the connections of the program and the registry agree: every connection that
  holds a pointer is registered under that key, and every registered identity belongs
  to a connection that holds the key.
\<close>

definition registered :: "AccountedClientConnection list \<Rightarrow> (u64 \<rightharpoonup> acc_id list) \<Rightarrow> bool" where
  "registered cs R \<longleftrightarrow>
     distinct (map acc_id cs) \<and>
     (\<forall>c \<in> set cs. \<forall>k. acc_per_client c = Some k \<longrightarrow> (\<exists>xs. R k = Some xs \<and> acc_id c \<in> set xs)) \<and>
     (\<forall>k xs. R k = Some xs \<longrightarrow>
        distinct xs \<and> (\<forall>i \<in> set xs. \<exists>c \<in> set cs. acc_id c = i \<and> acc_per_client c = Some k))"

lemma registeredI:
  assumes "distinct (map acc_id cs)"
    and "\<And>c k. c \<in> set cs \<Longrightarrow> acc_per_client c = Some k \<Longrightarrow> \<exists>xs. R k = Some xs \<and> acc_id c \<in> set xs"
    and "\<And>k xs. R k = Some xs \<Longrightarrow> distinct xs"
    and "\<And>k xs i. R k = Some xs \<Longrightarrow> i \<in> set xs \<Longrightarrow> \<exists>c \<in> set cs. acc_id c = i \<and> acc_per_client c = Some k"
  shows "registered cs R"
  using assms unfolding registered_def by blast

lemma registered_distinct: "registered cs R \<Longrightarrow> distinct (map acc_id cs)"
  by (simp add: registered_def)

lemma registered_pointer:
  "registered cs R \<Longrightarrow> c \<in> set cs \<Longrightarrow> acc_per_client c = Some k \<Longrightarrow>
   \<exists>xs. R k = Some xs \<and> acc_id c \<in> set xs"
  unfolding registered_def by blast

lemma registered_ids_distinct: "registered cs R \<Longrightarrow> R k = Some xs \<Longrightarrow> distinct xs"
  unfolding registered_def by blast

lemma registered_owner:
  "registered cs R \<Longrightarrow> R k = Some xs \<Longrightarrow> i \<in> set xs \<Longrightarrow>
   \<exists>c \<in> set cs. acc_id c = i \<and> acc_per_client c = Some k"
  unfolding registered_def by blast

lemma registered_mset:
  "registered cs R \<Longrightarrow> distinct (map acc_id cs') \<Longrightarrow> set cs' = set cs \<Longrightarrow> registered cs' R"
  by (simp add: registered_def)

lemma registered_dom:
  "registered cs R \<Longrightarrow> c \<in> set cs \<Longrightarrow> acc_per_client c = Some k \<Longrightarrow> k \<in> dom R"
  by (blast dest: registered_pointer)

lemma registered_fresh:
  "registered cs R \<Longrightarrow> R k = Some xs \<Longrightarrow> i \<notin> acc_id ` set cs \<Longrightarrow> i \<notin> set xs"
  by (blast dest: registered_owner)

text \<open>The effect on the agreement of one more and of one less registered connection.\<close>

lemma registered_insert:
  assumes reg: "registered cs R" and xs: "R k = Some xs"
    and k: "acc_per_client c = Some k" and fresh: "acc_id c \<notin> acc_id ` set cs"
  shows "registered (c # cs) (R(k \<mapsto> xs @ [acc_id c]))"
proof (rule registeredI)
  show "distinct (map acc_id (c # cs))"
    using registered_distinct [OF reg] fresh by simp
next
  fix d k'
  assume "d \<in> set (c # cs)" and d: "acc_per_client d = Some k'"
  then consider "d = c" | "d \<in> set cs" by auto
  then show "\<exists>ys. (R(k \<mapsto> xs @ [acc_id c])) k' = Some ys \<and> acc_id d \<in> set ys"
  proof cases
    case 1
    with d k show ?thesis by simp
  next
    case 2
    from registered_pointer [OF reg this d] xs show ?thesis by auto
  qed
next
  fix k' ys
  assume "(R(k \<mapsto> xs @ [acc_id c])) k' = Some ys"
  then show "distinct ys"
    using registered_ids_distinct [OF reg] xs registered_fresh [OF reg xs fresh]
    by (auto split: if_splits)
next
  fix k' ys i
  assume "(R(k \<mapsto> xs @ [acc_id c])) k' = Some ys" and i: "i \<in> set ys"
  then consider "k' = k" "i = acc_id c" | zs where "R k' = Some zs" "i \<in> set zs"
    using xs by (auto split: if_splits)
  then show "\<exists>d \<in> set (c # cs). acc_id d = i \<and> acc_per_client d = Some k'"
    by cases (use k registered_owner [OF reg] in auto)
qed

lemma registered_remove:
  assumes reg: "registered (c # cs) R" and xs: "R k = Some xs" and k: "acc_per_client c = Some k"
  shows "registered cs (R(k \<mapsto> remove1 (acc_id c) xs))"
proof (rule registeredI)
  show "distinct (map acc_id cs)" using registered_distinct [OF reg] by simp
next
  fix d k'
  assume d: "d \<in> set cs" and k': "acc_per_client d = Some k'"
  have "acc_id d \<noteq> acc_id c" using registered_distinct [OF reg] imageI [OF d, of acc_id] by auto
  moreover from registered_pointer [OF reg _ k'] d
  obtain ys where "R k' = Some ys" "acc_id d \<in> set ys" by auto
  ultimately show "\<exists>ys. (R(k \<mapsto> remove1 (acc_id c) xs)) k' = Some ys \<and> acc_id d \<in> set ys"
    using xs by auto
next
  fix k' ys
  assume "(R(k \<mapsto> remove1 (acc_id c) xs)) k' = Some ys"
  then show "distinct ys"
    using registered_ids_distinct [OF reg] xs by (auto split: if_splits)
next
  fix k' ys i
  assume ys: "(R(k \<mapsto> remove1 (acc_id c) xs)) k' = Some ys" and i: "i \<in> set ys"
  then obtain zs where zs: "R k' = Some zs" "i \<in> set zs"
    using xs by (auto split: if_splits dest: notin_set_remove1)
  from registered_owner [OF reg zs] obtain d where
    d: "d \<in> set (c # cs)" "acc_id d = i" "acc_per_client d = Some k'" by auto
  moreover have "d \<noteq> c"
    using ys i d k registered_ids_distinct [OF reg xs] by auto
  ultimately show "\<exists>d \<in> set cs. acc_id d = i \<and> acc_per_client d = Some k'" by auto
qed

lemma registered_remove_unaccounted:
  assumes reg: "registered (c # cs) R" and "acc_per_client c = None"
  shows "registered cs R"
proof (rule registeredI)
  show "distinct (map acc_id cs)" using registered_distinct [OF reg] by simp
next
  fix d k'
  assume "d \<in> set cs" and "acc_per_client d = Some k'"
  then show "\<exists>xs. R k' = Some xs \<and> acc_id d \<in> set xs"
    using registered_pointer [OF reg] by simp
next
  fix k' xs
  assume xs: "R k' = Some xs"
  then show "distinct xs" by (rule registered_ids_distinct [OF reg])
  fix i
  assume "i \<in> set xs"
  then show "\<exists>d \<in> set cs. acc_id d = i \<and> acc_per_client d = Some k'"
    using registered_owner [OF reg xs] assms(2) by auto
qed

text \<open>
  What the connections rely on.  \<open>registry\<close> is the abstract state; each
  operation has a result under its precondition, and says what it does to the registry.
\<close>

locale client_registry =
  fixes reg :: "'m \<Rightarrow> (u64 \<rightharpoonup> acc_id list)"
    and ok :: "'m \<Rightarrow> bool"
    and get :: "sock_address \<Rightarrow> 'm \<Rightarrow> u64 option \<times> 'm"
    and add :: "u64 \<Rightarrow> AccountedClientConnection \<Rightarrow> 'm \<Rightarrow> fault + ('m \<times> AccountedClientConnection)"
    and release :: "timepoint \<Rightarrow> AccountedClientConnection \<Rightarrow> 'm \<Rightarrow> fault + 'm"
    and charge :: "timepoint \<Rightarrow> rat \<Rightarrow> AccountedClientConnection \<Rightarrow> 'm \<Rightarrow> fault + 'm"
    and cleanup :: "timepoint \<Rightarrow> 'm \<Rightarrow> 'm"
  assumes get_ok: "ok m \<Longrightarrow> ok (snd (get a m))"
    and get_reg: "reg (snd (get a m)) =
      (case fst (get a m) of None \<Rightarrow> reg m
       | Some k \<Rightarrow> if k \<in> dom (reg m) then reg m else (reg m)(k \<mapsto> []))"
    and add_reg: "ok m \<Longrightarrow> reg m k = Some xs \<Longrightarrow> acc_per_client c = None \<Longrightarrow> acc_id c \<notin> set xs \<Longrightarrow>
      \<exists>m'. add k c m = Inr (m', c\<lparr>acc_per_client := Some k\<rparr>) \<and> ok m' \<and>
        reg m' = (reg m)(k \<mapsto> xs @ [acc_id c])"
    and release_none: "acc_per_client c = None \<Longrightarrow> release now c m = Inr m"
    and release_reg: "ok m \<Longrightarrow> acc_per_client c = Some k \<Longrightarrow> reg m k = Some xs \<Longrightarrow>
      \<exists>m'. release now c m = Inr m' \<and> ok m' \<and> reg m' = (reg m)(k \<mapsto> remove1 (acc_id c) xs)"
    and charge_reg: "ok m \<Longrightarrow> \<forall>k. acc_per_client c = Some k \<longrightarrow> k \<in> dom (reg m) \<Longrightarrow>
      \<exists>m'. charge now sz c m = Inr m' \<and> ok m' \<and> reg m' = reg m"
    and cleanup_ok: "ok m \<Longrightarrow> ok (cleanup now m)"
    and cleanup_reg: "ok m \<Longrightarrow>
      reg (cleanup now m) k = reg m k \<or> (reg m k = Some [] \<and> reg (cleanup now m) k = None)"
begin

lemma registered_get:
  assumes reg: "registered cs (reg m)"
  shows "registered cs (reg (snd (get a m)))"
proof (cases "fst (get a m)")
  case (Some k)
  show ?thesis
  proof (cases "k \<in> dom (reg m)")
    case False
    have "registered cs ((reg m)(k \<mapsto> []))"
    proof (rule registeredI)
      fix c k'
      assume "c \<in> set cs" and "acc_per_client c = Some k'"
      then show "\<exists>xs. ((reg m)(k \<mapsto> [])) k' = Some xs \<and> acc_id c \<in> set xs"
        using registered_pointer [OF reg] False by fastforce
    next
      fix k' xs i
      assume "((reg m)(k \<mapsto> [])) k' = Some xs" and "i \<in> set xs"
      then show "\<exists>c \<in> set cs. acc_id c = i \<and> acc_per_client c = Some k'"
        using registered_owner [OF reg] by (auto split: if_splits)
    qed (use registered_distinct [OF reg] registered_ids_distinct [OF reg]
      in \<open>auto split: if_splits\<close>)
    with False Some show ?thesis by (simp add: get_reg)
  qed (use reg Some in \<open>simp add: get_reg\<close>)
qed (use reg in \<open>simp add: get_reg\<close>)

lemma registered_add:
  assumes "ok m" and "registered cs (reg m)" and "k \<in> dom (reg m)"
    and "acc_per_client c = None" and "acc_id c \<notin> acc_id ` set cs"
  shows "\<exists>m'. add k c m = Inr (m', c\<lparr>acc_per_client := Some k\<rparr>) \<and> ok m' \<and>
    registered (c\<lparr>acc_per_client := Some k\<rparr> # cs) (reg m') \<and>
    (\<exists>xs. reg m k = Some xs \<and> reg m' = (reg m)(k \<mapsto> xs @ [acc_id c]))"
proof -
  from assms(3) obtain xs where xs: "reg m k = Some xs" by auto
  have fresh: "acc_id c \<notin> set xs"
    using assms(2) xs assms(5) by (rule registered_fresh)
  from add_reg [OF assms(1) xs assms(4) fresh] obtain m' where
    m': "add k c m = Inr (m', c\<lparr>acc_per_client := Some k\<rparr>)" "ok m'"
      "reg m' = (reg m)(k \<mapsto> xs @ [acc_id c])" by blast
  moreover have "registered (c\<lparr>acc_per_client := Some k\<rparr> # cs) (reg m')"
    using registered_insert [OF assms(2) xs, of "c\<lparr>acc_per_client := Some k\<rparr>"] assms(5) m'(3)
    by simp
  ultimately show ?thesis using xs by blast
qed

lemma registered_release:
  assumes "ok m" and "registered (c # cs) (reg m)"
  shows "\<exists>m'. release now c m = Inr m' \<and> ok m' \<and> registered cs (reg m')"
proof (cases "acc_per_client c")
  case None
  with assms registered_remove_unaccounted show ?thesis by (auto simp: release_none)
next
  case (Some k)
  with registered_pointer [OF assms(2), of c] obtain xs where xs: "reg m k = Some xs"
    by auto
  from release_reg [OF assms(1) Some xs, of now] registered_remove [OF assms(2) xs Some]
  show ?thesis by auto
qed

lemma registered_charge:
  assumes "ok m" and "registered cs (reg m)" and "c \<in> set cs"
  shows "\<exists>m'. charge now sz c m = Inr m' \<and> ok m' \<and> registered cs (reg m') \<and> reg m' = reg m"
proof -
  have "\<forall>k. acc_per_client c = Some k \<longrightarrow> k \<in> dom (reg m)"
    using registered_dom [OF assms(2,3)] by blast
  from charge_reg [OF assms(1) this] obtain m' where
    "charge now sz c m = Inr m'" "ok m'" "reg m' = reg m" by blast
  with assms(2) show ?thesis by simp
qed

lemma registered_cleanup:
  assumes "ok m" and reg: "registered cs (reg m)"
  shows "registered cs (reg (cleanup now m))"
proof (rule registeredI)
  show "distinct (map acc_id cs)" using reg by (rule registered_distinct)
next
  fix c k
  assume "c \<in> set cs" and "acc_per_client c = Some k"
  from registered_pointer [OF reg this] cleanup_reg [OF assms(1), of now k]
  show "\<exists>xs. reg (cleanup now m) k = Some xs \<and> acc_id c \<in> set xs" by auto
next
  fix k xs
  assume "reg (cleanup now m) k = Some xs"
  with cleanup_reg [OF assms(1), of now k] have xs: "reg m k = Some xs" by auto
  then show "distinct xs" by (rule registered_ids_distinct [OF reg])
  fix i
  assume "i \<in> set xs"
  then show "\<exists>c \<in> set cs. acc_id c = i \<and> acc_per_client c = Some k"
    by (rule registered_owner [OF reg xs])
qed

end

interpretation acct: client_registry
  registry wf_map "ClientAccountingMap_Get L" PerClient_AddConnection
  "Accounted_destroy L" "Accounted_UpdateTokenBucket L" "OnCleanupTimer L" for L
proof (unfold_locales, goal_cases)
  case 1 then show ?case by (rule wf_map_Get)
next
  case 2 show ?case by (rule registry_Get)
next
  case 3 then show ?case by (rule AddConnection_ok)
next
  case 4 then show ?case by (simp add: Accounted_destroy_def)
next
  case 5 then show ?case by (rule Accounted_destroy_ok)
next
  case 6 then show ?case by (rule Accounted_UpdateTokenBucket_ok)
next
  case 7 then show ?case by (rule wf_map_OnCleanupTimer)
next
  case 8 then show ?case by (rule registry_OnCleanupTimer)
qed

section \<open>The map as a state machine\<close>

datatype acc_event =
    AccGet sock_address
  | AccAdd u64 AccountedClientConnection
  | AccRelease timepoint AccountedClientConnection
  | AccCharge timepoint rat u64
  | AccKnock u64
  | AccCleanup timepoint

text \<open>
  The calls the rest of the program makes on the map.  The clock is past its epoch;
  the cleanup handler runs only when its timer was pending.
\<close>

inductive acc_step :: "lib \<Rightarrow> ClientAccountingMap \<Rightarrow> acc_event \<Rightarrow> ClientAccountingMap \<Rightarrow> bool"
  for L :: lib where
  acc_get: "acc_step L m (AccGet a) (snd (ClientAccountingMap_Get L a m))"
| acc_add: "acc_id c \<notin> set (conns_of k m) \<Longrightarrow> PerClient_AddConnection k c m = Inr (m', c') \<Longrightarrow>
    acc_step L m (AccAdd k c) m'"
| acc_release: "0 \<le> now \<Longrightarrow> Accounted_destroy L now c m = Inr m' \<Longrightarrow> acc_step L m (AccRelease now c) m'"
| acc_charge: "Map_UpdateTokenBucket L now sz k m = Inr m' \<Longrightarrow> acc_step L m (AccCharge now sz k) m'"
| acc_knock: "Map_SetKnocked k m = Inr m' \<Longrightarrow> acc_step L m (AccKnock k) m'"
| acc_cleanup: "timer_IsPending L (cleanup_timer m) \<Longrightarrow>
    acc_step L m (AccCleanup now) (OnCleanupTimer L now m)"

inductive_cases acc_stepE: "acc_step L m e m'"

definition acc_init :: "ClientAccountingMap \<Rightarrow> bool" where
  "acc_init m \<longleftrightarrow> (\<exists>max_conn tp. m = new_ClientAccountingMap max_conn tp)"

text \<open>
  No idle object is forgotten: while there is an object without connections whose
  expiry was ever set, the cleanup timer is pending.
\<close>

definition cleanup_armed :: "lib \<Rightarrow> ClientAccountingMap \<Rightarrow> bool" where
  "cleanup_armed L m \<longleftrightarrow>
    (\<forall>pc \<in> set (entries m). pc_connections pc = [] \<and> pc_expires pc \<noteq> 0 \<longrightarrow>
       timer_IsPending L (cleanup_timer m))"

lemma cleanup_armed_set_entry:
  assumes "cleanup_armed L m" and "find_entry (pc_address pc) m = Some q"
    and "pc_connections pc = [] \<Longrightarrow> pc_expires pc \<noteq> 0 \<Longrightarrow> pc_connections q = [] \<and> pc_expires q \<noteq> 0"
  shows "cleanup_armed L (set_entry pc m)"
proof -
  have "q \<in> set (entries m)" using assms(2) by (rule find_entry_mem)
  with assms(1,3) show ?thesis
    by (auto simp: cleanup_armed_def set_entry_def)
qed

context timers
begin

lemma timer_pending_ScheduleCleanup [simp]:
  "timer_IsPending L (cleanup_timer (ScheduleCleanup L m))"
  by (simp add: ScheduleCleanup_def)

lemma cleanup_armed_if_pending:
  "timer_IsPending L (cleanup_timer m) \<Longrightarrow> cleanup_armed L m"
  by (simp add: cleanup_armed_def)

lemma OnCleanupTimer_pending:
  "timer_IsPending L (cleanup_timer (OnCleanupTimer L now m)) \<longleftrightarrow>
   (\<exists>pc \<in> set (entries (OnCleanupTimer L now m)). pc_connections pc = [])"
  by (auto simp: OnCleanupTimer_def Let_def list_ex_iff cleanup_reschedules_def
      cleanup_disposes_def)

lemma cleanup_armed_release:
  assumes "cleanup_armed L m" and "Accounted_destroy L now c m = Inr m'"
  shows "cleanup_armed L m'"
proof (cases "acc_per_client c")
  case None
  with assms show ?thesis by (simp add: Accounted_destroy_def)
next
  case (Some k)
  with assms(2) obtain pc where pc: "find_entry k m = Some pc"
    by (auto simp: Accounted_destroy_def PerClient_RemoveConnection_def split: option.splits)
  let ?pc = "pc\<lparr>pc_connections := remove1 (acc_id c) (pc_connections pc),
                pc_expires := now + minutes 5\<rparr>"
  have m': "m' = (if remove1 (acc_id c) (pc_connections pc) = []
                  then ScheduleCleanup L (set_entry ?pc m) else set_entry ?pc m)"
    using assms(2) Some pc
    by (auto simp: Accounted_destroy_def PerClient_RemoveConnection_def Let_def)
  show ?thesis
  proof (cases "remove1 (acc_id c) (pc_connections pc) = []")
    case True
    with m' show ?thesis by (auto intro: cleanup_armed_if_pending)
  next
    case False
    moreover have "cleanup_armed L (set_entry ?pc m)"
      using assms(1) pc find_entry_address [OF pc] False
      by (intro cleanup_armed_set_entry) auto
    ultimately show ?thesis using m' by simp
  qed
qed

lemma acc_step_inv:
  assumes "wf_map m \<and> cleanup_armed L m" and "acc_step L m e m'"
  shows "wf_map m' \<and> cleanup_armed L m'"
  using assms(2,1)
proof cases
  case (acc_get a)
  with assms(1) show ?thesis
    by (cases rule: Get_cases [of L a m])
      (auto simp: cleanup_armed_def new_PerClientAccounting_def dest: wf_map_Get [of m L a])
next
  case (acc_add c k c')
  then obtain pc where pc: "find_entry k m = Some pc" and c: "acc_per_client c = None"
    and m': "m' = set_entry (pc\<lparr>pc_connections := pc_connections pc @ [acc_id c]\<rparr>) m"
    by (auto simp: PerClient_AddConnection_def res_simps split: option.splits)
  have "cleanup_armed L m'"
    unfolding m' using assms(1) pc find_entry_address [OF pc]
    by (intro cleanup_armed_set_entry) auto
  moreover have "wf_map m'"
    using AddConnection_ok [of m k "pc_connections pc" c] acc_add assms(1) pc c
    by (auto simp: registry_def conns_of_def)
  ultimately show ?thesis by simp
next
  case (acc_release now c)
  then show ?thesis using wf_map_release cleanup_armed_release assms(1) by blast
next
  case (acc_charge now sz k)
  then obtain pc where pc: "find_entry k m = Some pc"
    and m': "m' = set_entry (PerClient_UpdateTokenBucket L (tarpit m) now sz pc) m"
    by (auto simp: Map_UpdateTokenBucket_def split: option.splits)
  have "cleanup_armed L m'"
    unfolding m' using assms(1) pc find_entry_address [OF pc]
    by (intro cleanup_armed_set_entry) auto
  with Map_UpdateTokenBucket_ok [OF _ pc, of L now sz] acc_charge assms(1) show ?thesis by auto
next
  case (acc_knock k)
  then obtain pc where pc: "find_entry k m = Some pc"
    and m': "m' = set_entry (pc\<lparr>pc_knocked := True\<rparr>) m"
    by (auto simp: Map_SetKnocked_def split: option.splits)
  have "cleanup_armed L m'"
    unfolding m' using assms(1) pc find_entry_address [OF pc]
    by (intro cleanup_armed_set_entry) auto
  with Map_SetKnocked_ok [OF _ pc] acc_knock assms(1) show ?thesis by auto
next
  case (acc_cleanup now)
  then show ?thesis
    using assms(1) wf_map_OnCleanupTimer OnCleanupTimer_pending
    by (auto simp: cleanup_armed_def)
qed

lemma acc_inv: "invariant_of acc_init (acc_step L) (\<lambda>m. wf_map m \<and> cleanup_armed L m)"
proof
  fix m
  assume "acc_init m"
  then show "wf_map m \<and> cleanup_armed L m"
    by (auto simp: acc_init_def new_ClientAccountingMap_def wf_map_def cleanup_armed_def)
qed (rule acc_step_inv)

end

sublocale timers \<subseteq> acc_machine: invariant_of
  acc_init "acc_step L" "\<lambda>m. wf_map m \<and> cleanup_armed L m"
  by (rule acc_inv)

section \<open>Sequences of charges\<close>

fun charges :: "lib \<Rightarrow> (timepoint \<times> rat) list \<Rightarrow> PerClientAccounting \<Rightarrow> PerClientAccounting" where
  "charges L [] pc = pc"
| "charges L ((now, sz) # us) pc = charges L us (PerClient_UpdateTokenBucket L True now sz pc)"

definition over_limit :: "lib \<Rightarrow> timepoint \<Rightarrow> rat \<Rightarrow> PerClientAccounting \<Rightarrow> bool" where
  "over_limit L now sz pc \<longleftrightarrow>
     TokenBucket_available L
       (\<lparr>tb_rate = 1, tb_burst = 10, tb_now = ToFloatSeconds L now, tb_size = sz\<rparr>
        # pc_token_bucket pc) < 0"

fun all_over_limit :: "lib \<Rightarrow> (timepoint \<times> rat) list \<Rightarrow> PerClientAccounting \<Rightarrow> bool" where
  "all_over_limit L [] pc = True"
| "all_over_limit L ((now, sz) # us) pc =
     (over_limit L now sz pc \<and>
      all_over_limit L us (PerClient_UpdateTokenBucket L True now sz pc))"

lemma UpdateTokenBucket_over:
  "over_limit L now sz pc \<Longrightarrow>
   pc_delay (PerClient_UpdateTokenBucket L True now sz pc) =
     (if pc_delay pc < MAX_DELAY then pc_delay pc + DELAY_STEP else pc_delay pc) \<and>
   pc_tarpit_until (PerClient_UpdateTokenBucket L True now sz pc) = now + TARPIT_FOR \<and>
   \<not> pc_knocked (PerClient_UpdateTokenBucket L True now sz pc)"
  by (simp add: over_limit_def PerClient_UpdateTokenBucket_def Let_def)

lemma UpdateTokenBucket_within:
  "\<not> over_limit L now sz pc \<Longrightarrow>
   pc_delay (PerClient_UpdateTokenBucket L True now sz pc) =
     (if now < pc_tarpit_until pc
      then if pc_delay pc > DELAY_STEP then pc_delay pc - DELAY_STEP else pc_delay pc
      else 0) \<and>
   pc_tarpit_until (PerClient_UpdateTokenBucket L True now sz pc) = pc_tarpit_until pc \<and>
   pc_knocked (PerClient_UpdateTokenBucket L True now sz pc) = pc_knocked pc"
  by (simp add: over_limit_def PerClient_UpdateTokenBucket_def Let_def)

lemma min_delay_step:
  assumes "wf_delay d" and "0 \<le> n"
  shows "min MAX_DELAY ((if d < MAX_DELAY then d + DELAY_STEP else d) + DELAY_STEP * n) =
    min MAX_DELAY (d + DELAY_STEP * (n + 1))"
proof (cases "d < MAX_DELAY")
  case True
  then show ?thesis by (simp add: algebra_simps)
next
  case False
  moreover have "0 \<le> DELAY_STEP * n" "0 \<le> DELAY_STEP * (n + 1)"
    using assms(2) by (simp_all add: DELAY_STEP_def)
  ultimately show ?thesis using assms(1) by (simp add: wf_delay_def)
qed

lemma charges_not_knocked:
  "\<not> pc_knocked pc \<Longrightarrow> \<not> pc_knocked (charges L us pc)"
proof (induction us arbitrary: pc)
  case (Cons u us)
  obtain now sz where u: "u = (now, sz)" by force
  have "\<not> pc_knocked (PerClient_UpdateTokenBucket L True now sz pc)"
    using Cons.prems UpdateTokenBucket_over [of L now sz pc] UpdateTokenBucket_within [of L now sz pc]
    by (cases "over_limit L now sz pc") auto
  with Cons.IH u show ?case by simp
qed simp

text \<open>
  C30. While every charge of a client is over its token bucket's limit, the client's
  delay grows by one step of 100 ms per charge until it reaches the maximum of one minute,
  where it stays, and the client has to knock again.
\<close>

theorem tarpit_escalates:
  assumes "wf_entry pc" and "all_over_limit L us pc"
  shows "pc_delay (charges L us pc) = min MAX_DELAY (pc_delay pc + DELAY_STEP * int (length us)) \<and>
    (us \<noteq> [] \<longrightarrow> \<not> pc_knocked (charges L us pc))"
  using assms
proof (induction us arbitrary: pc)
  case Nil
  then show ?case by (simp add: wf_entry_def wf_delay_def)
next
  case (Cons u us)
  obtain now sz where u: "u = (now, sz)" by force
  let ?pc = "PerClient_UpdateTokenBucket L True now sz pc"
  have over: "over_limit L now sz pc" and rest: "all_over_limit L us ?pc"
    using Cons.prems(2) u by simp_all
  have wf: "wf_entry ?pc" using Cons.prems(1) by (rule wf_entry_UpdateTokenBucket)
  have "pc_delay (charges L us ?pc) = min MAX_DELAY (pc_delay ?pc + DELAY_STEP * int (length us))"
    using Cons.IH [OF wf rest] by simp
  also have "\<dots> = min MAX_DELAY (pc_delay pc + DELAY_STEP * (int (length us) + 1))"
    using UpdateTokenBucket_over [OF over] min_delay_step [of "pc_delay pc" "int (length us)"]
      Cons.prems(1) by (simp add: wf_entry_def)
  finally have "pc_delay (charges L us ?pc) =
    min MAX_DELAY (pc_delay pc + DELAY_STEP * int (length (u # us)))"
    by (simp add: add.commute)
  moreover have "\<not> pc_knocked (charges L us ?pc)"
    using UpdateTokenBucket_over [OF over] by (simp add: charges_not_knocked)
  ultimately show ?case using u by simp
qed

theorem tarpit_escalates_witness:
  "all_over_limit ref_lib [(0, 11), (0, 12)] (new_PerClientAccounting 7) \<and>
   pc_delay (charges ref_lib [(0, 11), (0, 12)] (new_PerClientAccounting 7)) = milliseconds 200"
proof -
  have "all_over_limit ref_lib [(0, 11), (0, 12)] (new_PerClientAccounting 7)"
    by (simp add: over_limit_def PerClient_UpdateTokenBucket_def new_PerClientAccounting_def
        ref_lib_def ref_available_def Let_def)
  moreover from tarpit_escalates [OF wf_entry_new this]
  have "pc_delay (charges ref_lib [(0, 11), (0, 12)] (new_PerClientAccounting 7)) = milliseconds 200"
    by (simp add: new_PerClientAccounting_def MAX_DELAY_def DELAY_STEP_def)
  ultimately show ?thesis ..
qed

text \<open>
  C31. A delayed client stays delayed until its tarpit period is over: from a state
  with a positive delay, any sequence of charges in the order of time, all before the end of
  the period, leaves a positive delay.  The first charge after the period that is within
  the limit clears it.
\<close>

theorem tarpit_holds:
  assumes "wf_entry pc" and "0 < pc_delay pc"
    and "pc_tarpit_until pc \<le> start + TARPIT_FOR"
    and "sorted (start # map fst us)" and "\<forall>u \<in> set us. fst u < pc_tarpit_until pc"
  shows "0 < pc_delay (charges L us pc) \<and>
    (pc_tarpit_until (charges L us pc) \<le> now \<and> \<not> over_limit L now sz (charges L us pc) \<longrightarrow>
     pc_delay (PerClient_UpdateTokenBucket L True now sz (charges L us pc)) = 0)"
proof -
  have "0 < pc_delay (charges L us pc)"
    if "wf_entry pc" "0 < pc_delay pc" "end \<le> start + TARPIT_FOR" "end \<le> pc_tarpit_until pc"
      "sorted (start # map fst us)" "\<forall>u \<in> set us. fst u < end" for "end"
    using that
  proof (induction us arbitrary: pc start)
    case Nil
    then show ?case by simp
  next
    case (Cons u us)
    obtain t s where u: "u = (t, s)" by force
    let ?pc = "PerClient_UpdateTokenBucket L True t s pc"
    have t: "t < pc_tarpit_until pc" "start \<le> t" using Cons.prems u by auto
    have pos: "0 < pc_delay ?pc"
      using t Cons.prems(2) UpdateTokenBucket_over [of L t s pc] UpdateTokenBucket_within [of L t s pc]
      by (cases "over_limit L t s pc") (auto simp: DELAY_STEP_def)
    have "end \<le> pc_tarpit_until ?pc"
      using t Cons.prems(3,4) UpdateTokenBucket_over [of L t s pc] UpdateTokenBucket_within [of L t s pc]
      by (cases "over_limit L t s pc") auto
    moreover have "end \<le> t + TARPIT_FOR" using Cons.prems(3) t by simp
    ultimately have "0 < pc_delay (charges L us ?pc)"
      using Cons.prems pos u
      by (intro Cons.IH [where start = t]) (auto intro: wf_entry_UpdateTokenBucket)
    then show ?case using u by simp
  qed
  then show ?thesis
    using assms UpdateTokenBucket_within [of L now sz "charges L us pc"] by auto
qed



text \<open>
  C32. The cleanup handler deletes exactly the objects that have no connection
  and whose expiry has passed, leaves every other object unchanged, and leaves the timer
  pending exactly if an object without connections is left.
\<close>

theorem OnCleanupTimer_exact:
  assumes "timers L" and "wf_map m"
  shows "(\<forall>k. find_entry k (OnCleanupTimer L now m) =
       (case find_entry k m of
          None \<Rightarrow> None
        | Some pc \<Rightarrow> if pc_connections pc = [] \<and> pc_expires pc \<le> now then None else Some pc)) \<and>
    (timer_IsPending L (cleanup_timer (OnCleanupTimer L now m)) \<longleftrightarrow>
     (\<exists>k pc. find_entry k (OnCleanupTimer L now m) = Some pc \<and> pc_connections pc = []))"
proof (intro conjI allI)
  fix k
  show "find_entry k (OnCleanupTimer L now m) =
       (case find_entry k m of
          None \<Rightarrow> None
        | Some pc \<Rightarrow> if pc_connections pc = [] \<and> pc_expires pc \<le> now then None else Some pc)"
    using assms(2)
    by (simp add: find_entry_OnCleanupTimer cleanup_disposes_def not_less split: option.split)
  have "wf_map (OnCleanupTimer L now m)" using assms(2) by (rule wf_map_OnCleanupTimer)
  then show "timer_IsPending L (cleanup_timer (OnCleanupTimer L now m)) \<longleftrightarrow>
     (\<exists>k pc. find_entry k (OnCleanupTimer L now m) = Some pc \<and> pc_connections pc = [])"
    unfolding timers.OnCleanupTimer_pending [OF assms(1)]
    by (blast dest: wf_map_find find_entry_mem)
qed

definition sample_entry :: PerClientAccounting where
  "sample_entry = (new_PerClientAccounting 5)\<lparr>pc_expires := 100\<rparr>"

definition sample_map :: ClientAccountingMap where
  "sample_map = (new_ClientAccountingMap 16 True)\<lparr>entries := [sample_entry]\<rparr>"

lemmas sample_map_simps =
  sample_map_def sample_entry_def new_ClientAccountingMap_def new_PerClientAccounting_def

lemma wf_sample_map: "wf_map sample_map"
  by (simp add: wf_map_def wf_entry_def sample_map_simps)

theorem OnCleanupTimer_exact_witness:
  "find_entry 5 sample_map \<noteq> None \<and> find_entry 5 (OnCleanupTimer ref_lib 200 sample_map) = None"
  using OnCleanupTimer_exact [OF ref_events.timers_axioms wf_sample_map, of 200]
  by (simp add: find_entry_def sample_map_simps)

theorem tarpit_holds_witness:
  "wf_entry (sample_entry\<lparr>pc_delay := milliseconds 200, pc_tarpit_until := seconds 30\<rparr>) \<and>
   0 < pc_delay (charges ref_lib [(seconds 1, 1), (seconds 2, 1)]
         (sample_entry\<lparr>pc_delay := milliseconds 200, pc_tarpit_until := seconds 30\<rparr>))"
proof -
  have wf: "wf_entry (sample_entry\<lparr>pc_delay := milliseconds 200, pc_tarpit_until := seconds 30\<rparr>)"
    by (simp add: wf_entry_def wf_delay_def sample_map_simps MAX_DELAY_def DELAY_STEP_def)
  with tarpit_holds [OF wf, of 0 "[(seconds 1, 1), (seconds 2, 1)]" ref_lib]
  show ?thesis by (simp add: TARPIT_FOR_def)
qed

section \<open>Keys of addresses\<close>

lemma unat_Read64_step:
  assumes "unat v < 2 ^ (64 - 8)"
  shows "unat (push_bit 8 v OR ucast (b :: byte) :: u64) = 256 * unat v + unat b"
proof -
  have disj: "push_bit 8 v AND (ucast b :: u64) = 0"
    by (rule bit_word_eqI) (auto simp: bit_simps byte_bit_beyond)
  have "push_bit 8 v OR (ucast b :: u64) = push_bit 8 v + ucast b"
    using disj by (simp add: disjunctive_add_eq_or)
  moreover have "unat (push_bit 8 v) = 256 * unat v"
    using assms by (simp add: push_bit_eq_mult unat_word_ariths)
  moreover have b: "unat b < 256" using unsigned_less [of b, where ?'a = nat] by simp
  moreover have "unat (ucast b :: u64) = unat b"
    using b by (simp add: unsigned_ucast_eq take_bit_eq_mod)
  ultimately show ?thesis
    using assms by (simp add: unat_word_ariths)
qed

lemma Read64_from_value:
  "unat v * 256 ^ length bs + 256 ^ length bs \<le> 2 ^ 64 \<Longrightarrow>
   unat (Read64_from v bs) = foldl (\<lambda>n b. 256 * n + unat b) (unat v) bs"
proof (induction bs arbitrary: v)
  case (Cons b bs)
  have pos: "1 \<le> (256::nat) ^ length bs" by simp
  have "(unat v + 1) * 256 * 256 ^ length bs \<le> 2 ^ 64"
    using Cons.prems by (simp add: algebra_simps)
  moreover have "(unat v + 1) * 256 * 1 \<le> (unat v + 1) * 256 * 256 ^ length bs"
    using pos by (rule mult_le_mono2)
  ultimately have "(unat v + 1) * 256 * 1 \<le> 2 ^ 64" by (rule order_trans [rotated])
  then have "unat v < 2 ^ (64 - 8)" by simp
  then have step: "unat (push_bit 8 v OR ucast b :: u64) = 256 * unat v + unat b"
    by (rule unat_Read64_step)
  have "unat b + 1 \<le> 256" using unsigned_less [of b, where ?'a = nat] by simp
  then have "(256 * unat v + unat b + 1) * 256 ^ length bs \<le> (256 * unat v + 256) * 256 ^ length bs"
    by (intro mult_le_mono1) simp
  also have "\<dots> \<le> 2 ^ 64" using Cons.prems by (simp add: algebra_simps)
  finally show ?case
    using Cons.IH [of "push_bit 8 v OR ucast b"] step by (simp add: algebra_simps)
qed simp

lemma Read64_value:
  "length bs = 8 \<Longrightarrow> unat (Read64 bs) = foldl (\<lambda>n b. 256 * n + unat b) 0 bs"
  using Read64_from_value [of 0 bs] by (simp add: Read64_def)

lemma base256_cancel:
  fixes m n x y :: nat
  assumes eq: "256 * m + x = 256 * n + y" and "x < 256" and "y < 256"
  shows "m = n \<and> x = y"
proof -
  have "(256 * m + x) div 256 = m" and "(256 * n + y) div 256 = n"
    using assms(2,3) by simp_all
  with eq have "m = n" by simp
  with eq show ?thesis by simp
qed

lemma foldl_base256_inj:
  fixes xs ys :: bytes
  assumes "length xs = length ys"
    and "foldl (\<lambda>n b. 256 * n + unat b) m xs = foldl (\<lambda>n b. 256 * n + unat b) n ys"
  shows "xs = ys \<and> m = n"
  using assms
proof (induction xs ys arbitrary: m n rule: list_induct2)
  case (Cons x xs y ys)
  from Cons.prems have "foldl (\<lambda>n b. 256 * n + unat b) (256 * m + unat x) xs =
      foldl (\<lambda>n b. 256 * n + unat b) (256 * n + unat y) ys" by simp
  from Cons.IH [OF this] have "256 * m + unat x = 256 * n + unat y" and "xs = ys" by blast+
  moreover have "unat x < 256" "unat y < 256"
    using unsigned_less [of x, where ?'a = nat] unsigned_less [of y, where ?'a = nat] by simp_all
  ultimately have "m = n" and "unat x = unat y" by (auto dest: base256_cancel)
  then have "x = y" by (blast intro: word_unat_eq_iff [THEN iffD2])
  with \<open>xs = ys\<close> \<open>m = n\<close> show ?case by simp
qed simp

lemma Read64_inj:
  assumes "length xs = 8" and "length ys = 8" and "Read64 xs = Read64 ys"
  shows "xs = ys"
proof -
  have "foldl (\<lambda>n b. 256 * n + unat b) 0 xs = foldl (\<lambda>n b. 256 * n + unat b) 0 ys"
    unfolding Read64_value [OF assms(1), symmetric] Read64_value [OF assms(2), symmetric]
    by (simp only: assms(3))
  then show ?thesis using foldl_base256_inj [of xs ys 0 0] assms(1,2) by simp
qed

lemma xor_word_0: "(a XOR b = 0) \<longleftrightarrow> a = (b :: 'a::len word)"
  by (auto simp: bit_eq_iff bit_simps)

text \<open>
  C33. The key of an IPv6 address that is not an IPv4-mapped one: each half is read as
  a big-endian 64-bit number, the two are combined with XOR, and the key is 0 exactly if the
  halves are equal.  For these addresses \<open>Get\<close> returns no accounting object, so
  that neither the knock requirement nor the connection limit nor the tarpit applies.
\<close>

theorem in6_key:
  assumes "length hi = 8" and "length lo = 8" and "\<not> IsV4Mapped L (hi @ lo)"
  shows "unat (Read64 hi) = foldl (\<lambda>n b. 256 * n + unat b) 0 hi \<and>
    ToInteger L (AddrInet6 (hi @ lo) port) = Read64 hi XOR Read64 lo \<and>
    (fst (ClientAccountingMap_Get L (AddrInet6 (hi @ lo) port) m) = None \<longleftrightarrow> hi = lo)"
proof (intro conjI)
  show "unat (Read64 hi) = foldl (\<lambda>n b. 256 * n + unat b) 0 hi"
    using assms(1) by (rule Read64_value)
  show key: "ToInteger L (AddrInet6 (hi @ lo) port) = Read64 hi XOR Read64 lo"
    using assms by (simp add: ToInteger_in6_def Read64_def)
  have "(Read64 hi XOR Read64 lo = 0) \<longleftrightarrow> hi = lo"
    using Read64_inj [OF assms(1,2)] by (auto simp: xor_word_0)
  with key show "fst (ClientAccountingMap_Get L (AddrInet6 (hi @ lo) port) m) = None \<longleftrightarrow> hi = lo"
    by (auto simp: ClientAccountingMap_Get_def Let_def split: option.split)
qed

theorem in6_key_witness:
  "fst (ClientAccountingMap_Get ref_lib
     (AddrInet6 ([0x20, 0x01, 0x0d, 0xb8, 0, 0, 0, 1] @ [0x20, 0x01, 0x0d, 0xb8, 0, 0, 0, 1]) 1)
     (new_ClientAccountingMap 16 True)) = None"
  using in6_key [of "[0x20, 0x01, 0x0d, 0xb8, 0, 0, 0, 1]" "[0x20, 0x01, 0x0d, 0xb8, 0, 0, 0, 1]" ref_lib 1]
  by (simp add: ref_lib_def)

end
