(* ===== verification/Pipe_Splice.thy ===== *)
theory Pipe_Splice
  imports Libraries
begin

text \<open>
  The pipe pool and the forwarding buffer: src/PipeStock.hxx, src/PipeStock.cxx,
  src/Splice.hxx and src/Splice.cxx.

  A pipe carries the bytes that are in it, which the kernel keeps and the program never
  looks at.  The results of \<open>splice(2)\<close> are arguments: for a receiving call the bytes the
  kernel moved into the pipe (none: end of stream) or \<open>errno\<close>, for a sending call their
  number or \<open>errno\<close>.  The pool (libcommon's \<open>Stock\<close>) is the list of the pipes
  that were put back for reuse; its answer to \<open>GetNow\<close>, one of them or a new one made
  by \<open>PipeStock::Create\<close>, is an argument too.
\<close>

section \<open>PipeStock\<close>

record PipeStockItem =
  item_fds :: "int \<times> int"
  item_content :: bytes

record PipeStock =
  stock_idle :: "PipeStockItem list"

text \<open>The result of \<open>pipe2()\<close>: \<open>errno\<close> or the two descriptors.\<close>

definition PipeStock_Create :: "int + (int \<times> int) \<Rightarrow> fault + PipeStockItem" where
  "PipeStock_Create r =
    (case r of
       Inl e \<Rightarrow> Inl (Thrown (ErrnoError ''pipe() failed'' e))
     | Inr fds \<Rightarrow> Inr \<lparr>item_fds = fds, item_content = []\<rparr>)"

definition PipeStockItem_Borrow :: "PipeStockItem \<Rightarrow> bool" where
  "PipeStockItem_Borrow item = True"

definition PipeStockItem_Release :: "PipeStockItem \<Rightarrow> bool" where
  "PipeStockItem_Release item = True"

definition pipe_stock_item_get :: "PipeStockItem \<Rightarrow> int \<times> int" where
  "pipe_stock_item_get item = item_fds item"

datatype stock_answer =
    StockIdle PipeStockItem
  | StockCreate "int + (int \<times> int)"

text \<open>
  \<open>Stock::GetNow\<close> hands out an idle item whose \<open>Borrow\<close> agrees, or calls \<open>Create\<close>.
\<close>

definition Stock_GetNow :: "stock_answer \<Rightarrow> PipeStock \<Rightarrow> fault + (PipeStockItem \<times> PipeStock)" where
  "Stock_GetNow a stock =
    (case a of
       StockIdle item \<Rightarrow> Inr (item, stock\<lparr>stock_idle := remove1 item (stock_idle stock)\<rparr>)
     | StockCreate r \<Rightarrow> bind_r (PipeStock_Create r) (\<lambda>item. Inr (item, stock)))"

definition stock_answer_ok :: "stock_answer \<Rightarrow> PipeStock \<Rightarrow> bool" where
  "stock_answer_ok a stock =
    (case a of
       StockIdle item \<Rightarrow> item \<in> set (stock_idle stock) \<and> PipeStockItem_Borrow item
     | StockCreate r \<Rightarrow> True)"

datatype PutAction = REUSE | DESTROY

text \<open>\<open>StockItem::Put\<close>: back to the idle list, if \<open>Release\<close> agrees, or deleted.\<close>

definition Stock_Put :: "PutAction \<Rightarrow> PipeStockItem \<Rightarrow> PipeStock \<Rightarrow> PipeStock" where
  "Stock_Put a item stock =
    (if a = REUSE \<and> PipeStockItem_Release item
     then stock\<lparr>stock_idle := item # stock_idle stock\<rparr> else stock)"

section \<open>Splice\<close>

record Splice =
  splice_pipe :: "PipeStockItem option"
  splice_size :: nat
  received_bytes :: u64
  sent_bytes :: u64

definition new_Splice :: Splice where
  "new_Splice = \<lparr>splice_pipe = None, splice_size = 0, received_bytes = 0, sent_bytes = 0\<rparr>"

datatype ReceiveResult =
    RECEIVE_OK | RECEIVE_SOCKET_BLOCKING | RECEIVE_SOCKET_CLOSED | RECEIVE_PIPE_FULL | RECEIVE_ERROR

datatype SendResult = SEND_OK | SEND_PARTIAL | SEND_SOCKET_BLOCKING | SEND_ERROR

datatype splice_in = SpliceIn bytes | SpliceInErr int

datatype splice_out = SpliceOut nat | SpliceOutErr int

definition EAGAIN :: int where "EAGAIN = 11"

definition Splice_destroy :: "Splice \<Rightarrow> PipeStock \<Rightarrow> PipeStock" where
  "Splice_destroy s stock =
    (case splice_pipe s of
       None \<Rightarrow> stock
     | Some p \<Rightarrow> Stock_Put (if splice_size s = 0 then REUSE else DESTROY) p stock)"

text \<open>The pipe of a splice object, taken from the pool if it has none.\<close>

definition Splice_need_pipe ::
    "stock_answer \<Rightarrow> Splice \<Rightarrow> PipeStock \<Rightarrow> fault + (PipeStockItem \<times> PipeStock)" where
  "Splice_need_pipe a s stock =
    (case splice_pipe s of
       None \<Rightarrow> bind_r (assert_r (splice_size s = 0) (AssertFailure ''Splice.cxx'' 24))
                 (\<lambda>_. Stock_GetNow a stock)
     | Some p \<Rightarrow> Inr (p, stock))"

definition ReceiveFrom ::
    "stock_answer \<Rightarrow> splice_in \<Rightarrow> Splice \<Rightarrow> PipeStock
     \<Rightarrow> fault + (ReceiveResult \<times> Splice \<times> PipeStock)" where
  "ReceiveFrom a r s stock =
    bind_r (Splice_need_pipe a s stock) (\<lambda>(p, stock).
    case r of
      SpliceIn bs \<Rightarrow>
        if bs \<noteq> [] then
          Inr (RECEIVE_OK,
               s\<lparr>splice_pipe := Some (p\<lparr>item_content := item_content p @ bs\<rparr>),
                 splice_size := splice_size s + length bs,
                 received_bytes := received_bytes s + of_nat (length bs)\<rparr>,
               stock)
        else if splice_size s = 0 then
          Inr (RECEIVE_SOCKET_CLOSED, s\<lparr>splice_pipe := None\<rparr>, Stock_Put REUSE p stock)
        else Inr (RECEIVE_SOCKET_CLOSED, s\<lparr>splice_pipe := Some p\<rparr>, stock)
    | SpliceInErr e \<Rightarrow>
        Inr (if e = EAGAIN
             then if splice_size s = 0 then RECEIVE_SOCKET_BLOCKING else RECEIVE_PIPE_FULL
             else RECEIVE_ERROR,
             s\<lparr>splice_pipe := Some p\<rparr>, stock))"

text \<open>\<open>SendTo\<close> also yields the bytes that left the pipe, as the kernel moved them to the socket.\<close>

definition SendTo ::
    "splice_out \<Rightarrow> Splice \<Rightarrow> PipeStock \<Rightarrow> fault + (SendResult \<times> bytes \<times> Splice \<times> PipeStock)" where
  "SendTo r s stock =
    (case splice_pipe s of
       None \<Rightarrow> Inl (AssertFailure ''Splice.cxx'' 57)
     | Some p \<Rightarrow>
    bind_r (assert_r (splice_size s > 0) (AssertFailure ''Splice.cxx'' 58)) (\<lambda>_.
    case r of
      SpliceOut n \<Rightarrow>
        if n > 0 then
          let moved = take n (item_content p);
              p' = p\<lparr>item_content := drop n (item_content p)\<rparr>;
              s' = s\<lparr>splice_pipe := Some p', splice_size := splice_size s - n,
                     sent_bytes := sent_bytes s + of_nat n\<rparr>
          in if splice_size s' = 0
             then Inr (SEND_OK, moved, s'\<lparr>splice_pipe := None\<rparr>, Stock_Put REUSE p' stock)
             else Inr (SEND_PARTIAL, moved, s', stock)
        else Inr (SEND_ERROR, [], s, stock)
    | SpliceOutErr e \<Rightarrow>
        Inr (if e = EAGAIN then SEND_SOCKET_BLOCKING else SEND_ERROR, [], s, stock)))"

text \<open>\<open>splice(2)\<close> moves at most as many bytes as were asked for.\<close>

definition splice_out_ok :: "splice_out \<Rightarrow> Splice \<Rightarrow> bool" where
  "splice_out_ok r s = (case r of SpliceOut n \<Rightarrow> n \<le> splice_size s | SpliceOutErr e \<Rightarrow> True)"

section \<open>Invariants\<close>

definition splice_content :: "Splice \<Rightarrow> bytes" where
  "splice_content s = (case splice_pipe s of None \<Rightarrow> [] | Some p \<Rightarrow> item_content p)"

text \<open>\<open>size\<close> is the number of bytes in the pipe.\<close>

definition splice_inv :: "Splice \<Rightarrow> bool" where
  "splice_inv s \<longleftrightarrow> splice_size s = length (splice_content s)"

text \<open>Every pipe in the pool is empty.\<close>

definition stock_clean :: "PipeStock \<Rightarrow> bool" where
  "stock_clean stock \<longleftrightarrow> list_all (\<lambda>p. item_content p = []) (stock_idle stock)"

lemma splice_inv_new: "splice_inv new_Splice"
  by (simp add: splice_inv_def splice_content_def new_Splice_def)

lemma splice_content_new [simp]: "splice_content new_Splice = []"
  by (simp add: splice_content_def new_Splice_def)

lemma stock_clean_Put:
  "stock_clean stock \<Longrightarrow> (a = REUSE \<Longrightarrow> item_content p = []) \<Longrightarrow> stock_clean (Stock_Put a p stock)"
  by (auto simp: stock_clean_def Stock_Put_def)

lemma stock_clean_destroy:
  "stock_clean stock \<Longrightarrow> splice_inv s \<Longrightarrow> stock_clean (Splice_destroy s stock)"
  by (auto simp: Splice_destroy_def splice_inv_def splice_content_def
      intro!: stock_clean_Put split: option.splits if_splits)

lemma Stock_GetNow_empty:
  assumes "stock_clean stock" and "stock_answer_ok a stock" and "Stock_GetNow a stock = Inr (p, stock')"
  shows "item_content p = [] \<and> stock_clean stock'"
  using assms
  by (auto simp: Stock_GetNow_def stock_answer_ok_def stock_clean_def PipeStock_Create_def list_all_iff
      res_simps split: stock_answer.splits sum.splits if_splits dest: notin_set_remove1)

lemma Splice_need_pipe_ok:
  assumes "splice_inv s" and "stock_clean stock" and "stock_answer_ok a stock"
    and "Splice_need_pipe a s stock = Inr (p, stock')"
  shows "item_content p = splice_content s \<and> stock_clean stock'"
proof (cases "splice_pipe s")
  case None
  then have "Stock_GetNow a stock = Inr (p, stock')"
    using assms(4) by (simp add: Splice_need_pipe_def res_simps)
  from Stock_GetNow_empty [OF assms(2,3) this] None show ?thesis
    by (simp add: splice_content_def)
next
  case (Some q)
  with assms show ?thesis by (simp add: Splice_need_pipe_def splice_content_def)
qed

lemma ReceiveFrom_ok:
  assumes "splice_inv s" and "stock_clean stock" and "stock_answer_ok a stock"
    and "ReceiveFrom a r s stock = Inr (res, s', stock')"
  shows "splice_inv s' \<and> stock_clean stock' \<and>
    splice_content s' = splice_content s @ (case r of SpliceIn bs \<Rightarrow> bs | SpliceInErr e \<Rightarrow> []) \<and>
    (res = RECEIVE_OK \<longrightarrow> splice_size s' > 0) \<and>
    (res = RECEIVE_PIPE_FULL \<longrightarrow> splice_size s > 0) \<and>
    (res = RECEIVE_SOCKET_BLOCKING \<longrightarrow> splice_size s' = 0)"
proof -
  obtain p st where need: "Splice_need_pipe a s stock = Inr (p, st)"
    using assms(4) by (auto simp: ReceiveFrom_def res_simps)
  from Splice_need_pipe_ok [OF assms(1-3) need]
  have p: "item_content p = splice_content s" "stock_clean st" by simp_all
  show ?thesis
    using assms(1,4) p need
    by (auto simp: ReceiveFrom_def splice_inv_def splice_content_def split: splice_in.splits if_splits
        intro!: stock_clean_Put)
qed

lemma SendTo_ok:
  assumes "splice_inv s" and "stock_clean stock" and "splice_out_ok r s"
    and "SendTo r s stock = Inr (res, moved, s', stock')"
  shows "splice_inv s' \<and> stock_clean stock' \<and> splice_content s = moved @ splice_content s' \<and>
    (res = SEND_OK \<longleftrightarrow> splice_size s' = 0) \<and> (res = SEND_OK \<longrightarrow> moved \<noteq> [])"
  using assms
  by (auto simp: SendTo_def splice_inv_def splice_content_def splice_out_ok_def res_simps Let_def
      split: splice_out.splits if_splits option.splits intro!: stock_clean_Put)

lemma SendTo_result:
  "splice_inv s \<Longrightarrow> splice_size s > 0 \<Longrightarrow> \<exists>x. SendTo r s stock = Inr x"
  by (cases "splice_pipe s"; cases r)
    (auto simp: SendTo_def splice_inv_def splice_content_def Let_def)

lemma ReceiveFrom_faults:
  assumes "splice_inv s" and "ReceiveFrom a r s stock = Inl f"
  shows "\<exists>e. f = Thrown (ErrnoError ''pipe() failed'' e) \<and> a = StockCreate (Inl e) \<and> splice_pipe s = None"
  using assms
  by (auto simp: ReceiveFrom_def Splice_need_pipe_def Stock_GetNow_def PipeStock_Create_def
      splice_inv_def splice_content_def res_simps
      split: option.splits stock_answer.splits sum.splits splice_in.splits if_splits)

section \<open>Forwarding as a byte channel\<close>

text \<open>
  A step of a channel takes bytes in and lets bytes out; what is buffered before and
  the bytes that came in are, in this order, the bytes that went out and what is buffered
  after.  Then a whole run loses, repeats, reorders and invents nothing.
\<close>

inductive channel_run :: "('s \<Rightarrow> bytes \<Rightarrow> bytes \<Rightarrow> 's \<Rightarrow> bool) \<Rightarrow> 's \<Rightarrow> bytes \<Rightarrow> bytes \<Rightarrow> 's \<Rightarrow> bool"
  for stp :: "'s \<Rightarrow> bytes \<Rightarrow> bytes \<Rightarrow> 's \<Rightarrow> bool" where
  run_nil: "channel_run stp s [] [] s"
| run_step: "channel_run stp s i out t \<Longrightarrow> stp t i' out' u \<Longrightarrow>
    channel_run stp s (i @ i') (out @ out') u"

locale byte_channel =
  fixes inv :: "'s \<Rightarrow> bool"
    and buffered :: "'s \<Rightarrow> bytes"
    and stp :: "'s \<Rightarrow> bytes \<Rightarrow> bytes \<Rightarrow> 's \<Rightarrow> bool"
  assumes step_inv: "inv s \<Longrightarrow> stp s i out t \<Longrightarrow> inv t"
    and step_fifo: "inv s \<Longrightarrow> stp s i out t \<Longrightarrow> buffered s @ i = out @ buffered t"
begin

lemma run_fifo:
  assumes "channel_run stp s i out t" and "inv s"
  shows "inv t \<and> buffered s @ i = out @ buffered t"
  using assms
proof (induction rule: channel_run.induct)
  case (run_step s i out t i' out' u)
  then have t: "inv t" "buffered s @ i = out @ buffered t" by simp_all
  from step_fifo [OF t(1) run_step.hyps(2)] t(2)
  have "buffered s @ i @ i' = out @ out' @ buffered u" by (metis append.assoc)
  with step_inv [OF t(1) run_step.hyps(2)] show ?case by simp
qed simp

end

text \<open>One call on a splice object, with the bytes it takes in and lets out.\<close>

inductive splice_step :: "Splice \<times> PipeStock \<Rightarrow> bytes \<Rightarrow> bytes \<Rightarrow> Splice \<times> PipeStock \<Rightarrow> bool" where
  splice_receive: "stock_answer_ok a stock \<Longrightarrow>
    ReceiveFrom a r s stock = Inr (res, s', stock') \<Longrightarrow>
    splice_step (s, stock) (case r of SpliceIn bs \<Rightarrow> bs | SpliceInErr e \<Rightarrow> []) [] (s', stock')"
| splice_send: "splice_out_ok r s \<Longrightarrow> SendTo r s stock = Inr (res, moved, s', stock') \<Longrightarrow>
    splice_step (s, stock) [] moved (s', stock')"

lemma splice_step_fifo:
  assumes "splice_step (s, stock) i out (s', stock')" and "splice_inv s" and "stock_clean stock"
  shows "splice_inv s' \<and> stock_clean stock' \<and> splice_content s @ i = out @ splice_content s'"
  using assms(1)
proof cases
  case (splice_receive a r res)
  from ReceiveFrom_ok [OF assms(2,3) splice_receive(3,4)] splice_receive(1,2)
  show ?thesis by simp
next
  case (splice_send r res)
  from SendTo_ok [OF assms(2,3) splice_send(2,3)] splice_send(1) show ?thesis by simp
qed

interpretation splice_channel: byte_channel
  "\<lambda>(s, stock). splice_inv s \<and> stock_clean stock" "\<lambda>(s, stock). splice_content s" splice_step
  by unfold_locales (auto dest: splice_step_fifo)

text \<open>
  C17. A splice object forwards a byte stream: after any sequence of receiving and
  sending calls on a new object, with any results of the system calls, the bytes it let out
  followed by the bytes still in its pipe are exactly the bytes it took in, \<open>size\<close> is the
  number of the bytes in the pipe, and every pipe in the pool is empty, so that no
  bytes of one connection reach another one.
\<close>

theorem splice_preserves_stream:
  assumes "stock_clean stock" and "channel_run splice_step (new_Splice, stock) i out (s, stock')"
  shows "i = out @ splice_content s \<and> splice_size s = length (splice_content s) \<and>
    stock_clean stock' \<and> stock_clean (Splice_destroy s stock')"
proof -
  from splice_channel.run_fifo [OF assms(2)] assms(1) splice_inv_new
  have "splice_inv s" "stock_clean stock'" "i = out @ splice_content s" by auto
  then show ?thesis using stock_clean_destroy by (simp add: splice_inv_def)
qed

definition sample_pipe :: PipeStockItem where
  "sample_pipe = \<lparr>item_fds = (5, 6), item_content = []\<rparr>"

definition sample_filled :: Splice where
  "sample_filled = new_Splice\<lparr>splice_pipe := Some (sample_pipe\<lparr>item_content := [1, 2, 3]\<rparr>),
     splice_size := 3, received_bytes := 3\<rparr>"

definition sample_sent :: Splice where
  "sample_sent = sample_filled\<lparr>splice_pipe := Some (sample_pipe\<lparr>item_content := [3]\<rparr>),
     splice_size := 1, sent_bytes := 2\<rparr>"

theorem splice_preserves_stream_witness:
  "channel_run splice_step (new_Splice, \<lparr>stock_idle = []\<rparr>) [1, 2, 3] [1, 2]
     (sample_sent, \<lparr>stock_idle = []\<rparr>) \<and>
   splice_size sample_sent = 1"
proof -
  have "splice_step (new_Splice, \<lparr>stock_idle = []\<rparr>) [1, 2, 3] [] (sample_filled, \<lparr>stock_idle = []\<rparr>)"
    using splice_receive [of "StockCreate (Inr (5, 6))" "\<lparr>stock_idle = []\<rparr>" "SpliceIn [1, 2, 3]"
        new_Splice RECEIVE_OK sample_filled "\<lparr>stock_idle = []\<rparr>"]
    by (simp add: stock_answer_ok_def ReceiveFrom_def Splice_need_pipe_def Stock_GetNow_def
        PipeStock_Create_def sample_filled_def sample_pipe_def new_Splice_def)
  from run_step [where stp = splice_step, OF run_nil this]
  have 1: "channel_run splice_step (new_Splice, \<lparr>stock_idle = []\<rparr>) [1, 2, 3] []
      (sample_filled, \<lparr>stock_idle = []\<rparr>)" by simp
  have "splice_step (sample_filled, \<lparr>stock_idle = []\<rparr>) [] [1, 2] (sample_sent, \<lparr>stock_idle = []\<rparr>)"
    using splice_send [of "SpliceOut 2" sample_filled "\<lparr>stock_idle = []\<rparr>" SEND_PARTIAL "[1, 2]"
        sample_sent "\<lparr>stock_idle = []\<rparr>"]
    by (simp add: splice_out_ok_def SendTo_def sample_filled_def sample_sent_def sample_pipe_def
        new_Splice_def Let_def)
  from run_step [where stp = splice_step, OF 1 this]
  have run: "channel_run splice_step (new_Splice, \<lparr>stock_idle = []\<rparr>) [1, 2, 3] [1, 2]
      (sample_sent, \<lparr>stock_idle = []\<rparr>)" by simp
  have "stock_clean \<lparr>stock_idle = []\<rparr>" by (simp add: stock_clean_def)
  from splice_preserves_stream [OF this run] run show ?thesis
    by (simp add: splice_content_def sample_sent_def)
qed

end
