(* ===== verification/Uo_Command.thy ===== *)
theory Uo_Command
  imports Libraries
begin

text \<open>
  The command bytes of the Ultima Online protocol (src/uo/Command.hxx).  The C++ type is
  an \<open>enum class\<close> over \<open>uint8_t\<close>: every byte is a value of the type, and the
  enumerators are names for some of them.  The enumeration is kept as a table in
  source order; the enumerators the program uses are constants of their own.
\<close>

section \<open>The enumeration\<close>





section \<open>The commands the program uses\<close>

definition Command_AccountLogin :: byte where "Command_AccountLogin = 0x80"
definition Command_AccountLoginReject :: byte where "Command_AccountLoginReject = 0x82"
definition Command_PlayServer :: byte where "Command_PlayServer = 0xa0"
definition Command_ServerList :: byte where "Command_ServerList = 0xa8"
definition Command_Extended :: byte where "Command_Extended = 0xbf"
definition Command_Seed :: byte where "Command_Seed = 0xef"

lemmas Command_defs =
  Command_AccountLogin_def Command_AccountLoginReject_def Command_PlayServer_def
  Command_ServerList_def Command_Extended_def Command_Seed_def

section \<open>Properties\<close>









end
