(* ===== verification/Uo_Packets.thy ===== *)
theory Uo_Packets
  imports Uo_Command
begin

text \<open>
  The packet structures of src/uo/Packets.hxx, the field accessor of src/uo/String.hxx
  and the user name check of src/Validate.hxx.

  Every structure is packed (alignment 1, by the \<open>static_assert\<close>s of the source), so
  its object representation is the concatenation of its fields.  For each structure
  there is a record, a function that yields the bytes a \<open>ReferenceAsBytes\<close> sends, and
  one that reads the structure from a buffer of the same size, as the
  \<open>reinterpret_cast\<close>s of the source do.
\<close>

section \<open>Structures\<close>

record CredentialsFragment =
  username :: string
  password :: string

record uo_packet_account_login =
  login_cmd :: byte
  credentials :: CredentialsFragment
  unknown1 :: byte

record uo_packet_account_login_reject =
  reject_cmd :: byte
  reject_reason :: byte

record uo_packet_game_login =
  game_login_cmd :: byte
  auth_id :: u32
  game_credentials :: CredentialsFragment

record uo_packet_play_server =
  play_cmd :: byte
  play_index :: u16

record uo_fragment_server_info =
  info_index :: u16
  info_name :: string
  info_full :: char
  info_timezone :: byte
  info_address :: u32

record uo_packet_server_list =
  list_cmd :: byte
  list_length :: u16
  unknown_0x5d :: byte
  num_game_servers :: u16
  game_servers :: "uo_fragment_server_info list"

record uo_packet_extended =
  ext_cmd :: byte
  ext_length :: u16
  extended_cmd :: u16

record uo_packet_seed =
  seed_cmd :: byte
  seed_value :: u32
  client_major :: u32
  client_minor :: u32
  client_revision :: u32
  client_patch :: u32

record ExpectedPackets =
  expected_seed :: uo_packet_seed
  expected_login :: uo_packet_account_login

section \<open>Object representations\<close>

definition encode_credentials :: "CredentialsFragment \<Rightarrow> bytes" where
  "encode_credentials c = as_bytes (username c) @ as_bytes (password c)"

definition decode_credentials :: "bytes \<Rightarrow> CredentialsFragment" where
  "decode_credentials bs =
    \<lparr>username = as_chars (take 30 bs), password = as_chars (drop 30 bs)\<rparr>"

definition wf_credentials :: "CredentialsFragment \<Rightarrow> bool" where
  "wf_credentials c \<longleftrightarrow> length (username c) = 30 \<and> length (password c) = 30"

definition encode_account_login :: "uo_packet_account_login \<Rightarrow> bytes" where
  "encode_account_login p = login_cmd p # encode_credentials (credentials p) @ [unknown1 p]"

definition decode_account_login :: "bytes \<Rightarrow> uo_packet_account_login" where
  "decode_account_login bs =
    \<lparr>login_cmd = bs ! 0, credentials = decode_credentials (slice 1 60 bs), unknown1 = bs ! 61\<rparr>"

definition wf_account_login :: "uo_packet_account_login \<Rightarrow> bool" where
  "wf_account_login p \<longleftrightarrow> wf_credentials (credentials p)"

definition encode_account_login_reject :: "uo_packet_account_login_reject \<Rightarrow> bytes" where
  "encode_account_login_reject p = [reject_cmd p, reject_reason p]"

definition encode_game_login :: "lib \<Rightarrow> uo_packet_game_login \<Rightarrow> bytes" where
  "encode_game_login L p =
     game_login_cmd p # be32_store L (auth_id p) @ encode_credentials (game_credentials p)"

definition encode_play_server :: "lib \<Rightarrow> uo_packet_play_server \<Rightarrow> bytes" where
  "encode_play_server L p = play_cmd p # be16_store L (play_index p)"

definition decode_play_server :: "lib \<Rightarrow> bytes \<Rightarrow> uo_packet_play_server" where
  "decode_play_server L bs = \<lparr>play_cmd = bs ! 0, play_index = be16_load L (drop 1 bs)\<rparr>"

definition encode_server_info :: "lib \<Rightarrow> uo_fragment_server_info \<Rightarrow> bytes" where
  "encode_server_info L p =
     be16_store L (info_index p) @ as_bytes (info_name p) @
     [of_char (info_full p), info_timezone p] @ be32_store L (info_address p)"

definition decode_server_info :: "lib \<Rightarrow> bytes \<Rightarrow> uo_fragment_server_info" where
  "decode_server_info L bs =
    \<lparr>info_index = be16_load L (take 2 bs), info_name = as_chars (slice 2 32 bs),
     info_full = char_of (unat (bs ! 34)), info_timezone = bs ! 35,
     info_address = be32_load L (drop 36 bs)\<rparr>"

definition wf_server_info :: "uo_fragment_server_info \<Rightarrow> bool" where
  "wf_server_info p \<longleftrightarrow> length (info_name p) = 32"

definition encode_server_list :: "lib \<Rightarrow> uo_packet_server_list \<Rightarrow> bytes" where
  "encode_server_list L p =
     list_cmd p # be16_store L (list_length p) @ [unknown_0x5d p] @
     be16_store L (num_game_servers p) @ concat (map (encode_server_info L) (game_servers p))"

text \<open>\<open>sizeof(struct uo_packet_server_list)\<close>: the header and one array element.\<close>

definition sizeof_server_info :: nat where "sizeof_server_info = 40"
definition sizeof_server_list :: nat where "sizeof_server_list = 6 + sizeof_server_info"

fun decode_server_infos :: "lib \<Rightarrow> nat \<Rightarrow> bytes \<Rightarrow> uo_fragment_server_info list" where
  "decode_server_infos L 0 bs = []"
| "decode_server_infos L (Suc n) bs =
     decode_server_info L (take sizeof_server_info bs) #
     decode_server_infos L n (drop sizeof_server_info bs)"

text \<open>How a client reads the packet: as many array elements as the header announces.\<close>

definition decode_server_list :: "lib \<Rightarrow> bytes \<Rightarrow> uo_packet_server_list" where
  "decode_server_list L bs =
    (let n = be16_load L (slice 4 2 bs)
     in \<lparr>list_cmd = bs ! 0, list_length = be16_load L (slice 1 2 bs),
         unknown_0x5d = bs ! 3, num_game_servers = n,
         game_servers = decode_server_infos L (unat n) (drop 6 bs)\<rparr>)"

definition encode_extended :: "lib \<Rightarrow> uo_packet_extended \<Rightarrow> bytes" where
  "encode_extended L p =
     ext_cmd p # be16_store L (ext_length p) @ be16_store L (extended_cmd p)"

definition decode_extended :: "lib \<Rightarrow> bytes \<Rightarrow> uo_packet_extended" where
  "decode_extended L bs =
    \<lparr>ext_cmd = bs ! 0, ext_length = be16_load L (slice 1 2 bs),
     extended_cmd = be16_load L (drop 3 bs)\<rparr>"

definition encode_seed :: "lib \<Rightarrow> uo_packet_seed \<Rightarrow> bytes" where
  "encode_seed L p =
     seed_cmd p # be32_store L (seed_value p) @ be32_store L (client_major p) @
     be32_store L (client_minor p) @ be32_store L (client_revision p) @
     be32_store L (client_patch p)"

definition decode_seed :: "lib \<Rightarrow> bytes \<Rightarrow> uo_packet_seed" where
  "decode_seed L bs =
    \<lparr>seed_cmd = bs ! 0, seed_value = be32_load L (slice 1 4 bs),
     client_major = be32_load L (slice 5 4 bs), client_minor = be32_load L (slice 9 4 bs),
     client_revision = be32_load L (slice 13 4 bs), client_patch = be32_load L (drop 17 bs)\<rparr>"

definition encode_ExpectedPackets :: "lib \<Rightarrow> ExpectedPackets \<Rightarrow> bytes" where
  "encode_ExpectedPackets L p =
     encode_seed L (expected_seed p) @ encode_account_login (expected_login p)"

definition decode_ExpectedPackets :: "lib \<Rightarrow> bytes \<Rightarrow> ExpectedPackets" where
  "decode_ExpectedPackets L bs =
    \<lparr>expected_seed = decode_seed L (take 21 bs),
     expected_login = decode_account_login (drop 21 bs)\<rparr>"

definition wf_ExpectedPackets :: "ExpectedPackets \<Rightarrow> bool" where
  "wf_ExpectedPackets p \<longleftrightarrow> wf_account_login (expected_login p)"

section \<open>Field contents\<close>

text \<open>
  The characters of a field up to the first null character, or all of them:
  \<open>std::find\<close> returns the end of the range if there is none.
\<close>

definition ExtractString :: "string \<Rightarrow> string" where
  "ExtractString src = takeWhile (\<lambda>c. c \<noteq> CHR 0x00) src"

definition IsValidUsername :: "lib \<Rightarrow> string \<Rightarrow> bool" where
  "IsValidUsername L s = CheckCharsNonEmpty L s (\<lambda>ch. IsPrintableASCII L ch)"

section \<open>Fixed-size codecs\<close>

text \<open>
  What every packed structure provides: bytes of a fixed number, from which the
  structure can be read back, and no other representation of the same structure.
\<close>

locale fixed_codec =
  fixes enc :: "'p \<Rightarrow> bytes"
    and dec :: "bytes \<Rightarrow> 'p"
    and size :: nat
    and wf :: "'p \<Rightarrow> bool"
  assumes enc_length: "wf p \<Longrightarrow> length (enc p) = size"
    and dec_enc: "wf p \<Longrightarrow> dec (enc p) = p"
    and enc_dec: "length bs = size \<Longrightarrow> enc (dec bs) = bs"
    and wf_dec: "length bs = size \<Longrightarrow> wf (dec bs)"
begin

lemma enc_inj: "wf p \<Longrightarrow> wf q \<Longrightarrow> enc p = enc q \<Longrightarrow> p = q"
  by (metis dec_enc)

lemma dec_prefix: "wf p \<Longrightarrow> dec (take size (enc p @ bs)) = p"
  by (simp add: enc_length dec_enc)

lemma enc_array_length:
  "list_all wf ps \<Longrightarrow> length (concat (map enc ps)) = size * length ps"
  by (induction ps) (auto simp: enc_length)

end

text \<open>A structure that consists of two structures.\<close>

locale codec_pair =
  a: fixed_codec enc1 dec1 size1 wf1 + b: fixed_codec enc2 dec2 size2 wf2
  for enc1 :: "'p \<Rightarrow> bytes" and dec1 size1 wf1 and enc2 :: "'q \<Rightarrow> bytes" and dec2 size2 wf2

sublocale codec_pair \<subseteq> pair: fixed_codec
  "\<lambda>(p, q). enc1 p @ enc2 q" "\<lambda>bs. (dec1 (take size1 bs), dec2 (drop size1 bs))"
  "size1 + size2" "\<lambda>(p, q). wf1 p \<and> wf2 q"
  by unfold_locales
    (auto simp: a.enc_length b.enc_length a.dec_enc b.dec_enc a.enc_dec b.enc_dec a.wf_dec b.wf_dec)

section \<open>The structures of the protocol as codecs\<close>

lemma take_slices_drop: "slice off n bs @ drop (off + n) bs = drop off bs"
  by (simp add: slice_def add.commute [of off n] flip: drop_drop)

lemma nth_Cons_drop: "i < length bs \<Longrightarrow> bs ! i # drop (Suc i) bs = drop i bs"
  by (rule Cons_nth_drop_Suc)

lemma first_drop: "0 < length bs \<Longrightarrow> bs ! 0 # drop 1 bs = bs"
  using nth_Cons_drop [of 0 bs] by simp

lemma drop_last_byte: "length bs = Suc n \<Longrightarrow> drop n bs = [bs ! n]"
  using nth_Cons_drop [of n bs] by simp

lemma slice_Cons: "slice (Suc i) n (x # xs) = slice i n xs"
  by (simp add: slice_def)

lemmas codec_simps = slice_def nth_append numeral_eq_Suc

interpretation cred: fixed_codec encode_credentials decode_credentials 60 wf_credentials
  by unfold_locales
    (auto simp: encode_credentials_def decode_credentials_def wf_credentials_def)

lemma wf_account_login_parts:
  "wf_account_login p \<Longrightarrow> length (encode_credentials (credentials p)) = 60"
  by (simp add: wf_account_login_def cred.enc_length)

interpretation login: fixed_codec encode_account_login decode_account_login 62 wf_account_login
proof
  fix p :: uo_packet_account_login
  assume wf: "wf_account_login p"
  show "length (encode_account_login p) = 62"
    using wf by (simp add: encode_account_login_def wf_account_login_parts)
  show "decode_account_login (encode_account_login p) = p"
    using wf wf_account_login_parts [OF wf]
    by (simp add: encode_account_login_def decode_account_login_def slice_def nth_append
        wf_account_login_def cred.dec_enc)
next
  fix bs :: bytes
  assume len: "length bs = 62"
  then have "bs ! 61 # [] = drop 61 bs" by (simp add: drop_last_byte)
  moreover have "slice 1 60 bs @ drop 61 bs = drop 1 bs"
    using take_slices_drop [of 1 60 bs] by simp
  ultimately show "encode_account_login (decode_account_login bs) = bs"
    using len first_drop [of bs]
    by (simp add: encode_account_login_def decode_account_login_def cred.enc_dec)
  show "wf_account_login (decode_account_login bs)"
    using len by (simp add: decode_account_login_def wf_account_login_def cred.wf_dec)
qed

context packed_be
begin

lemma play_server_codec:
  "fixed_codec (encode_play_server L) (decode_play_server L) 3 (\<lambda>p. True)"
proof
  fix bs :: bytes
  assume "length bs = 3"
  then show "encode_play_server L (decode_play_server L bs) = bs"
    using first_drop [of bs]
    by (simp add: encode_play_server_def decode_play_server_def be16_store_load)
qed (simp_all add: encode_play_server_def decode_play_server_def)

lemma extended_codec: "fixed_codec (encode_extended L) (decode_extended L) 5 (\<lambda>p. True)"
proof
  fix bs :: bytes
  assume len: "length bs = 5"
  then have "slice 1 2 bs @ drop 3 bs = drop 1 bs"
    using take_slices_drop [of 1 2 bs] by (simp add: numeral_3_eq_3)
  with len show "encode_extended L (decode_extended L bs) = bs"
    using first_drop [of bs]
    by (simp add: encode_extended_def decode_extended_def be16_store_load)
qed (simp_all add: encode_extended_def decode_extended_def slice_def)

lemma seed_codec: "fixed_codec (encode_seed L) (decode_seed L) 21 (\<lambda>p. True)"
proof
  fix bs :: bytes
  assume len: "length bs = 21"
  have "slice 1 4 bs @ slice 5 4 bs @ slice 9 4 bs @ slice 13 4 bs @ drop 17 bs = drop 1 bs"
    using take_slices_drop [of 1 4 bs] take_slices_drop [of 5 4 bs]
      take_slices_drop [of 9 4 bs] take_slices_drop [of 13 4 bs] by simp
  with len show "encode_seed L (decode_seed L bs) = bs"
    using first_drop [of bs] by (simp add: encode_seed_def decode_seed_def be32_store_load)
qed (simp_all add: encode_seed_def decode_seed_def slice_def)

lemma server_info_codec:
  "fixed_codec (encode_server_info L) (decode_server_info L) sizeof_server_info wf_server_info"
proof
  fix p :: uo_fragment_server_info
  assume wf: "wf_server_info p"
  then show "length (encode_server_info L p) = sizeof_server_info"
    by (simp add: encode_server_info_def wf_server_info_def sizeof_server_info_def)
  show "decode_server_info L (encode_server_info L p) = p"
    using wf by (simp add: encode_server_info_def decode_server_info_def wf_server_info_def
        slice_def nth_append)
next
  fix bs :: bytes
  assume "length bs = sizeof_server_info"
  then have len: "length bs = 40" by (simp add: sizeof_server_info_def)
  have "take 2 bs @ slice 2 32 bs @ [bs ! 34, bs ! 35] @ drop 36 bs = bs"
    using len take_slices_drop [of 0 2 bs] take_slices_drop [of 2 32 bs]
      nth_Cons_drop [of 34 bs] nth_Cons_drop [of 35 bs] by simp
  with len show "encode_server_info L (decode_server_info L bs) = bs"
    by (simp add: encode_server_info_def decode_server_info_def be16_store_load be32_store_load)
  show "wf_server_info (decode_server_info L bs)"
    using len by (simp add: decode_server_info_def wf_server_info_def)
qed

end

sublocale packed_be \<subseteq> play: fixed_codec "encode_play_server L" "decode_play_server L" 3 "\<lambda>p. True"
  by (rule play_server_codec)

sublocale packed_be \<subseteq> extended: fixed_codec "encode_extended L" "decode_extended L" 5 "\<lambda>p. True"
  by (rule extended_codec)

sublocale packed_be \<subseteq> server_info: fixed_codec
  "encode_server_info L" "decode_server_info L" sizeof_server_info wf_server_info
  by (rule server_info_codec)

sublocale packed_be \<subseteq> seed_login: codec_pair
  "encode_seed L" "decode_seed L" 21 "\<lambda>p. True"
  encode_account_login decode_account_login 62 wf_account_login
  by (rule codec_pair.intro) (rule seed_codec, rule login.fixed_codec_axioms)

context packed_be
begin

lemma decode_server_infos_concat:
  "list_all wf_server_info ps \<Longrightarrow>
   decode_server_infos L (length ps) (concat (map (encode_server_info L) ps)) = ps"
  by (induction ps) (auto simp: server_info.enc_length server_info.dec_enc)

lemma server_list_length:
  "list_all wf_server_info (game_servers p) \<Longrightarrow>
   length (encode_server_list L p) = 6 + sizeof_server_info * length (game_servers p)"
  by (simp add: encode_server_list_def server_info.enc_array_length)

lemma decode_encode_server_list:
  assumes "list_all wf_server_info (game_servers p)"
    and "unat (num_game_servers p) = length (game_servers p)"
  shows "decode_server_list L (encode_server_list L p) = p"
proof -
  have "slice 1 2 (encode_server_list L p) = be16_store L (list_length p)"
    and "encode_server_list L p ! 3 = unknown_0x5d p"
    and "slice 4 2 (encode_server_list L p) = be16_store L (num_game_servers p)"
    and "drop 6 (encode_server_list L p) = concat (map (encode_server_info L) (game_servers p))"
    by (simp_all add: encode_server_list_def slice_def nth_append)
  with assms show ?thesis
    by (simp add: decode_server_list_def Let_def decode_server_infos_concat encode_server_list_def)
qed

lemma ExpectedPackets_enc_dec:
  "length bs = 83 \<Longrightarrow> encode_ExpectedPackets L (decode_ExpectedPackets L bs) = bs"
  using seed_login.pair.enc_dec [of bs]
  by (simp add: encode_ExpectedPackets_def decode_ExpectedPackets_def)

lemma ExpectedPackets_dec_enc:
  "wf_ExpectedPackets p \<Longrightarrow> decode_ExpectedPackets L (encode_ExpectedPackets L p) = p"
  using seed_login.pair.dec_enc [of "(expected_seed p, expected_login p)"]
  by (simp add: encode_ExpectedPackets_def decode_ExpectedPackets_def wf_ExpectedPackets_def)

lemma ExpectedPackets_wf:
  "length bs = 83 \<Longrightarrow> wf_ExpectedPackets (decode_ExpectedPackets L bs)"
  using seed_login.pair.wf_dec [of bs]
  by (simp add: wf_ExpectedPackets_def decode_ExpectedPackets_def)

lemma ExpectedPackets_enc_length:
  "wf_ExpectedPackets p \<Longrightarrow> length (encode_ExpectedPackets L p) = 83"
  using seed_login.pair.enc_length [of "(expected_seed p, expected_login p)"]
  by (simp add: encode_ExpectedPackets_def wf_ExpectedPackets_def)

end

section \<open>Strings in fields\<close>

lemma ExtractString_length: "length (ExtractString s) \<le> length s"
  by (simp add: ExtractString_def length_takeWhile_le)

lemma ExtractString_no_null: "CHR 0x00 \<notin> set (ExtractString s)"
  by (auto simp: ExtractString_def dest: set_takeWhileD)

lemma ExtractString_id: "CHR 0x00 \<notin> set s \<Longrightarrow> ExtractString s = s"
  by (auto simp: ExtractString_def takeWhile_eq_all_conv)

lemma ExtractString_append_null:
  "CHR 0x00 \<notin> set s \<Longrightarrow> ExtractString (s @ CHR 0x00 # t) = s"
  by (induction s) (auto simp: ExtractString_def)

lemma ExtractString_pad_to: "CHR 0x00 \<notin> set s \<Longrightarrow> ExtractString (pad_to n s) = s"
  by (cases "n - length s") (auto simp: pad_to_def ExtractString_id ExtractString_append_null)

context char_util
begin

lemma IsValidUsername_iff:
  "IsValidUsername L s \<longleftrightarrow>
   s \<noteq> [] \<and> (\<forall>c \<in> set s. 0x20 \<le> (of_char c :: nat) \<and> (of_char c :: nat) < 0x7f)"
  by (simp add: IsValidUsername_def CheckCharsNonEmpty_iff list_all_iff IsPrintableASCII_iff)

end

section \<open>The login packets\<close>

text \<open>The two packets a client sends to log in.\<close>

definition login_packets :: "uo_packet_seed \<Rightarrow> string \<Rightarrow> string \<Rightarrow> byte \<Rightarrow> ExpectedPackets" where
  "login_packets sd user pass b =
    \<lparr>expected_seed = sd,
     expected_login = \<lparr>login_cmd = Command_AccountLogin,
       credentials = \<lparr>username = pad_to 30 user, password = pad_to 30 pass\<rparr>, unknown1 = b\<rparr>\<rparr>"

text \<open>
  C22. The login packets are read as the client means them: user names and passwords of up to
  30 characters without a null character, written into their fields, occupy 83 bytes,
  the structures and both strings are read back from these bytes, and no other bytes have the same meaning.
\<close>

theorem login_packets_round_trip:
  assumes "packed_be L" and "length user \<le> 30" and "length pass \<le> 30"
    and "CHR 0x00 \<notin> set user" and "CHR 0x00 \<notin> set pass" and "bs = encode_ExpectedPackets L (login_packets sd user pass b)"
  shows "length bs = 83 \<and> decode_ExpectedPackets L bs = login_packets sd user pass b \<and>
    ExtractString (username (credentials (expected_login (decode_ExpectedPackets L bs)))) = user \<and>
    ExtractString (password (credentials (expected_login (decode_ExpectedPackets L bs)))) = pass \<and>
    (\<forall>bs'. length bs' = 83 \<and> decode_ExpectedPackets L bs' = decode_ExpectedPackets L bs \<longrightarrow> bs' = bs)"
proof -
  let ?p = "login_packets sd user pass b"
  have "wf_ExpectedPackets ?p"
    using assms(2,3) by (simp add: wf_ExpectedPackets_def wf_account_login_def wf_credentials_def login_packets_def)
  then have d: "decode_ExpectedPackets L bs = ?p" and l: "length bs = 83"
    using assms(6) packed_be.ExpectedPackets_dec_enc [OF assms(1)] packed_be.ExpectedPackets_enc_length [OF assms(1)]
    by simp_all
  have u: "ExtractString (username (credentials (expected_login ?p))) = user"
    and w: "ExtractString (password (credentials (expected_login ?p))) = pass"
    using assms(4,5) by (simp_all add: login_packets_def ExtractString_pad_to)
  have "bs' = bs" if "length bs' = 83" "decode_ExpectedPackets L bs' = ?p" for bs'
    using packed_be.ExpectedPackets_enc_dec [OF assms(1) that(1)] that(2) assms(6) by simp
  with l u w show ?thesis unfolding d by blast
qed

theorem login_packets_round_trip_witness:
  "\<exists>bs. length bs = 83 \<and>
     ExtractString (username (credentials (expected_login (decode_ExpectedPackets ref_lib bs)))) = ''alice''"
proof -
  let ?sd = "\<lparr>seed_cmd = Command_Seed, seed_value = 1, client_major = 7, client_minor = 0, client_revision = 0,
    client_patch = 0\<rparr>"
  show ?thesis
    using login_packets_round_trip [OF ref_be.packed_be_axioms, of "''alice''" "''secret''" _ ?sd 0] by simp blast
qed

end
