(* ===== verification/Credentials_Database.thy ===== *)
theory Credentials_Database
  imports Uo_Packets
begin

text \<open>
  The user database: src/BerkeleyDB.hxx, src/BerkeleyDB.cxx, src/Database.hxx and
  src/Database.cxx.

  A Berkeley DB handle is a number; \<open>open_handles\<close> lists the handles that were
  created and not closed yet, so that closing a handle twice, or using a closed one,
  is a \<open>UseAfterFree\<close> fault and a forgotten handle stays in the list.  What libdb, the file
  system and the environment answer to a call is an argument of the operations
  (\<open>reload_env\<close>, \<open>get_answer\<close>).  An operation that throws after it changed the
  object returns the changed object together with the exception.
\<close>

section \<open>BerkeleyDB\<close>

text \<open>
  \<open>this\<close> is the member \<open>db\<close>, a handle or null.  \<open>db_create\<close> yields a return code and a new
  handle.
\<close>

definition BerkeleyDB_Create ::
    "int \<times> nat \<Rightarrow> nat option \<Rightarrow> nat list \<Rightarrow> fault + (nat option \<times> nat list \<times> exn option)" where
  "BerkeleyDB_Create answer this hs =
    bind_r (assert_r (this = None) (AssertFailure ''BerkeleyDB.cxx'' 12)) (\<lambda>_.
    let (ret, h) = answer in
    Inr (if ret \<noteq> 0 then (this, hs, Some (RuntimeError ''db_create() failed'' ret))
         else (Some h, h # hs, None)))"

definition db_close :: "nat \<Rightarrow> nat list \<Rightarrow> fault + nat list" where
  "db_close h hs =
    (if h \<in> set hs then Inr (remove1 h hs) else Inl (UseAfterFree ''BerkeleyDB'' 0))"

text \<open>\<open>db_open\<close> is what \<open>db->open\<close> returns for a path; a handle that cannot be opened is closed.\<close>

definition BerkeleyDB_Open ::
    "(string \<Rightarrow> int) \<Rightarrow> string \<Rightarrow> nat option \<Rightarrow> nat list \<Rightarrow> fault + (nat list \<times> exn option)" where
  "BerkeleyDB_Open db_open path this hs =
    (case this of
       None \<Rightarrow> Inl (AssertFailure ''BerkeleyDB.cxx'' 21)
     | Some h \<Rightarrow>
         let ret = db_open path in
         if ret \<noteq> 0
         then bind_r (db_close h hs) (\<lambda>hs. Inr (hs, Some (RuntimeError ''db_open() failed'' ret)))
         else Inr (hs, None))"

text \<open>
  The constructor from a path.  If it throws, the destructor does not run: the object was
  not completely constructed.
\<close>

definition new_BerkeleyDB ::
    "string \<Rightarrow> int \<times> nat \<Rightarrow> (string \<Rightarrow> int) \<Rightarrow> nat list \<Rightarrow> fault + (nat list \<times> (exn + nat option))" where
  "new_BerkeleyDB path create db_open hs =
    bind_r (BerkeleyDB_Create create None hs) (\<lambda>(this, hs, err).
    case err of
      Some e \<Rightarrow> Inr (hs, Inl e)
    | None \<Rightarrow>
        bind_r (BerkeleyDB_Open db_open path this hs) (\<lambda>(hs, err).
        Inr (hs, case err of Some e \<Rightarrow> Inl e | None \<Rightarrow> Inr this)))"

definition BerkeleyDB_destroy :: "nat option \<Rightarrow> nat list \<Rightarrow> fault + nat list" where
  "BerkeleyDB_destroy db hs = (case db of None \<Rightarrow> Inr hs | Some h \<Rightarrow> db_close h hs)"

text \<open>
  Move assignment from a temporary: the handles are swapped and the temporary, which now
  has the old one, is destroyed.
\<close>

definition BerkeleyDB_assign ::
    "nat option \<Rightarrow> nat option \<Rightarrow> nat list \<Rightarrow> fault + (nat option \<times> nat list)" where
  "BerkeleyDB_assign this src hs =
    bind_r (BerkeleyDB_destroy this hs) (\<lambda>hs. Inr (src, hs))"

text \<open>What \<open>db->get\<close> answers for a key and a buffer size.\<close>

datatype get_answer = DbFound string | DbNotFound | DbError int

text \<open>
  The value written to the buffer (its length is the returned size), empty for an unknown
  key.
\<close>

definition BerkeleyDB_Get ::
    "(nat \<Rightarrow> string \<Rightarrow> nat \<Rightarrow> get_answer) \<Rightarrow> nat option \<Rightarrow> nat list \<Rightarrow> string \<Rightarrow> nat \<Rightarrow> fault + string" where
  "BerkeleyDB_Get dbget db hs key buffer_size =
    (case db of
       None \<Rightarrow> Inl (AssertFailure ''BerkeleyDB.cxx'' 35)
     | Some h \<Rightarrow>
         if h \<notin> set hs then Inl (UseAfterFree ''BerkeleyDB.cxx'' 48)
         else (case dbget h key buffer_size of
             DbFound v \<Rightarrow> Inr v
           | DbNotFound \<Rightarrow> Inr []
           | DbError ret \<Rightarrow> Inl (Thrown (RuntimeError ''db_get() failed'' ret))))"

section \<open>Database\<close>

record Database =
  db :: "nat option"
  db_path :: "string option"
  last_mtime :: int
  last_reload_error :: "exn option"
  auto_reload :: bool
  open_handles :: "nat list"
  opened :: "(nat \<times> string) list"

text \<open>
  The answers a reload gets: \<open>stat\<close> of the path, \<open>getenv\<close>, the opening and copying of
  files, libdb.
\<close>

record stat_buf =
  st_isreg :: bool
  st_mtime :: int
  st_size :: int

record reload_env =
  re_stat :: "int + stat_buf"
  re_runtime_directory :: "string option"
  re_open_src :: "string \<Rightarrow> exn option"
  re_open_dst :: "string \<Rightarrow> exn option"
  re_copy :: "string \<Rightarrow> string \<Rightarrow> int \<Rightarrow> exn option"
  re_create :: "int \<times> nat"
  re_open :: "string \<Rightarrow> int"

text \<open>
  \<open>db = BerkeleyDB{path}\<close>, which is in two places: the object is constructed and assigned, or the
  exception of its constructor is thrown.  \<open>opened\<close> is a history of the files that were opened, with their
  handles.
\<close>

definition assign_new_BerkeleyDB ::
    "string \<Rightarrow> int \<times> nat \<Rightarrow> (string \<Rightarrow> int) \<Rightarrow> Database \<Rightarrow> fault + (Database \<times> exn option)" where
  "assign_new_BerkeleyDB path create db_open d =
    bind_r (new_BerkeleyDB path create db_open (open_handles d)) (\<lambda>(hs, r).
    case r of
      Inl e \<Rightarrow> Inr (d\<lparr>open_handles := hs\<rparr>, Some e)
    | Inr src \<Rightarrow>
        bind_r (BerkeleyDB_assign (db d) src hs) (\<lambda>(this, hs).
        Inr (d\<lparr>db := this, open_handles := hs,
               opened := (case src of None \<Rightarrow> opened d | Some h \<Rightarrow> (h, path) # opened d)\<rparr>, None)))"

definition new_Database ::
    "string option \<Rightarrow> bool \<Rightarrow> int \<times> nat \<Rightarrow> (string \<Rightarrow> int) \<Rightarrow> fault + (exn + Database)" where
  "new_Database path reload create db_open =
    (let d = \<lparr>db = None, db_path = path, last_mtime = 0, last_reload_error = None,
              auto_reload = reload, open_handles = [], opened = []\<rparr> in
     case path of
       Some p \<Rightarrow>
         if \<not> reload then
           bind_r (assign_new_BerkeleyDB p create db_open d) (\<lambda>(d, err).
           Inr (case err of Some e \<Rightarrow> Inl e | None \<Rightarrow> Inr d))
         else Inr (Inr d)
     | None \<Rightarrow> Inr (Inr d))"

text \<open>The static \<open>CopyRegularFile\<close>: the first of its three calls that throws, if any.\<close>

definition CopyRegularFile :: "reload_env \<Rightarrow> string \<Rightarrow> string \<Rightarrow> int \<Rightarrow> exn option" where
  "CopyRegularFile env src dst sz =
    (case re_open_src env src of
       Some e \<Rightarrow> Some e
     | None \<Rightarrow> (case re_open_dst env dst of Some e \<Rightarrow> Some e | None \<Rightarrow> re_copy env src dst sz))"

definition DoAutoReload ::
    "reload_env \<Rightarrow> string \<Rightarrow> int \<Rightarrow> Database \<Rightarrow> fault + (Database \<times> exn option)" where
  "DoAutoReload env path sz d =
    bind_r (assert_r (auto_reload d) (AssertFailure ''Database.cxx'' 47)) (\<lambda>_.
    case re_runtime_directory env of
      None \<Rightarrow> Inr (d, Some (RuntimeError ''No RUNTIME_DIRECTORY'' 0))
    | Some runtime_directory \<Rightarrow>
        let copy_path = runtime_directory @ ''/user.db'' in
        case CopyRegularFile env path copy_path sz of
          Some e \<Rightarrow> Inr (d, Some e)
        | None \<Rightarrow> assign_new_BerkeleyDB copy_path (re_create env) (re_open env) d)"

text \<open>\<open>stat\<close> of the path; without a path, a null pointer, it fails with \<open>EFAULT\<close>.\<close>

definition stat_path :: "reload_env \<Rightarrow> Database \<Rightarrow> int + (string \<times> stat_buf)" where
  "stat_path env d =
    (case db_path d of
       None \<Rightarrow> Inl 14
     | Some path \<Rightarrow> (case re_stat env of Inl e \<Rightarrow> Inl e | Inr st \<Rightarrow> Inr (path, st)))"

definition MaybeAutoReload :: "reload_env \<Rightarrow> Database \<Rightarrow> fault + (Database \<times> exn option)" where
  "MaybeAutoReload env d =
    bind_r (assert_r (auto_reload d) (AssertFailure ''Database.cxx'' 62)) (\<lambda>_.
    case stat_path env d of
      Inl e \<Rightarrow> Inr (d, Some (ErrnoError ''Failed to check'' e))
    | Inr (path, st) \<Rightarrow>
        if \<not> st_isreg st then Inr (d, Some (RuntimeError ''Not a regular file'' 0))
        else if st_mtime st = last_mtime d then Inr (d, last_reload_error d)
        else
          bind_r (BerkeleyDB_assign (db d) None (open_handles d)) (\<lambda>(h, hs).
          bind_r (DoAutoReload env path (st_size st)
                    (d\<lparr>last_mtime := st_mtime st, db := h, open_handles := hs,
                       last_reload_error := None\<rparr>)) (\<lambda>(d, err).
          case err of
            None \<Rightarrow> Inr (d, None)
          | Some e \<Rightarrow> Inr (d\<lparr>last_reload_error := Some e\<rparr>, Some e))))"

text \<open>
  What \<open>CheckCredentials\<close> does: throw, call back at once with \<open>true\<close>, or queue a
  job for the worker threads.
\<close>

datatype check_action = CheckThrows exn | CallbackNow bool | QueueJob

definition CheckCredentials :: "reload_env \<Rightarrow> Database \<Rightarrow> fault + (Database \<times> check_action)" where
  "CheckCredentials env d =
    bind_r (if auto_reload d then MaybeAutoReload env d else Inr (d, None)) (\<lambda>(d, err).
    case err of
      Some e \<Rightarrow> Inr (d, CheckThrows e)
    | None \<Rightarrow> Inr (d, if db d = None then CallbackNow True else QueueJob))"

text \<open>The destructor: that of the member \<open>db\<close>.\<close>

definition Database_destroy :: "Database \<Rightarrow> fault + Database" where
  "Database_destroy d =
    bind_r (BerkeleyDB_destroy (db d) (open_handles d)) (\<lambda>hs. Inr (d\<lparr>open_handles := hs\<rparr>))"

section \<open>Password check\<close>

text \<open>
  \<open>db d\<close> is the handle as \<open>Get\<close> reads it from the member, \<open>open_handles d\<close> are the handles
  that are open while libdb works.
\<close>

definition CheckPassword ::
    "lib \<Rightarrow> (nat \<Rightarrow> string \<Rightarrow> nat \<Rightarrow> get_answer) \<Rightarrow> string \<Rightarrow> string \<Rightarrow> Database \<Rightarrow> fault + bool" where
  "CheckPassword L dbget user pass d =
    noexcept ''Database.cxx'' 140
      (if length user > 30 then Inr False
       else
         let key = map (ToUpperASCII L) user in
         bind_r (BerkeleyDB_Get dbget (db d) (open_handles d) key (crypto_pwhash_STRBYTES L)) (\<lambda>v.
         if length v = 0 \<or> length v \<ge> crypto_pwhash_STRBYTES L then Inr False
         else Inr (crypto_pwhash_str_verify L (ExtractString v) pass = 0)))"

section \<open>Jobs\<close>

text \<open>
  A \<open>CheckCredentialsJob\<close> and the queue of the thread pool that holds it.  \<open>'cb\<close> is
  the bound method that is called with the result.  \<open>job_handle\<close> is the handle that the worker
  has read from the database object, once it has.
\<close>

record 'cb CheckCredentialsJob =
  job_id :: nat
  job_username :: string
  job_password :: string
  job_callback :: 'cb
  job_canceled :: bool
  job_result :: bool
  job_stage :: job_stage
  job_handle :: "nat option option"

type_synonym 'cb job_queue = "'cb CheckCredentialsJob list"

definition new_CheckCredentialsJob ::
    "nat \<Rightarrow> string \<Rightarrow> string \<Rightarrow> 'cb \<Rightarrow> 'cb CheckCredentialsJob" where
  "new_CheckCredentialsJob i user pass cb =
    \<lparr>job_id = i, job_username = user, job_password = pass, job_callback = cb,
     job_canceled = False, job_result = False, job_stage = JobWaiting, job_handle = None\<rparr>"

definition find_job :: "nat \<Rightarrow> 'cb job_queue \<Rightarrow> 'cb CheckCredentialsJob option" where
  "find_job i q = find (\<lambda>j. job_id j = i) q"

definition set_job :: "'cb CheckCredentialsJob \<Rightarrow> 'cb job_queue \<Rightarrow> 'cb job_queue" where
  "set_job j q = map (\<lambda>k. if job_id k = job_id j then j else k) q"

definition delete_job :: "nat \<Rightarrow> 'cb job_queue \<Rightarrow> 'cb job_queue" where
  "delete_job i q = filter (\<lambda>j. job_id j \<noteq> i) q"

definition queue_Add :: "'cb CheckCredentialsJob \<Rightarrow> 'cb job_queue \<Rightarrow> 'cb job_queue" where
  "queue_Add j q = q @ [j]"

text \<open>A worker takes a waiting job.\<close>

definition job_Take :: "nat \<Rightarrow> 'cb job_queue \<Rightarrow> 'cb job_queue option" where
  "job_Take i q =
    (case find_job i q of
       None \<Rightarrow> None
     | Some j \<Rightarrow> if job_stage j = JobWaiting then Some (set_job (j\<lparr>job_stage := JobBusy\<rparr>) q) else None)"

text \<open>
  \<open>Run\<close>, in the worker, is not protected against the main thread: the job has a reference to
  the member \<open>db\<close> of the database, reads the handle from it, and then libdb and libsodium work for a while
  before the result is there.  \<open>job_Enter\<close> is the reading of the handle, \<open>job_Run\<close> the rest, with the
  handles that are open by then; a job that has not read the handle before reads it there.
\<close>

definition job_Enter :: "Database \<Rightarrow> nat \<Rightarrow> 'cb job_queue \<Rightarrow> fault + 'cb job_queue" where
  "job_Enter d i q =
    (case find_job i q of
       None \<Rightarrow> Inl (UseAfterFree ''Database.cxx'' 122)
     | Some j \<Rightarrow> Inr (set_job (j\<lparr>job_handle := Some (db d)\<rparr>) q))"

definition job_database :: "'cb CheckCredentialsJob \<Rightarrow> Database \<Rightarrow> Database" where
  "job_database j d = (case job_handle j of None \<Rightarrow> d | Some h \<Rightarrow> d\<lparr>db := h\<rparr>)"

definition job_Run ::
    "lib \<Rightarrow> (nat \<Rightarrow> string \<Rightarrow> nat \<Rightarrow> get_answer) \<Rightarrow> Database \<Rightarrow> nat \<Rightarrow> 'cb job_queue
     \<Rightarrow> fault + 'cb job_queue" where
  "job_Run L dbget d i q =
    (case find_job i q of
       None \<Rightarrow> Inl (UseAfterFree ''Database.cxx'' 122)
     | Some j \<Rightarrow>
         bind_r (CheckPassword L dbget (job_username j) (job_password j) (job_database j d)) (\<lambda>r.
         Inr (set_job (j\<lparr>job_result := r, job_stage := JobDone\<rparr>) q)))"

text \<open>\<open>Done\<close>, in the main thread: the callback to be called, if any; the job is deleted.\<close>

definition job_Done ::
    "nat \<Rightarrow> 'cb job_queue \<Rightarrow> fault + (('cb \<times> string \<times> bool) option \<times> 'cb job_queue)" where
  "job_Done i q =
    (case find_job i q of
       None \<Rightarrow> Inl (UseAfterFree ''Database.cxx'' 126)
     | Some j \<Rightarrow>
         Inr (if \<not> job_canceled j then Some (job_callback j, job_username j, job_result j) else None,
              delete_job i q))"

definition job_Cancel :: "lib \<Rightarrow> nat \<Rightarrow> 'cb job_queue \<Rightarrow> fault + 'cb job_queue" where
  "job_Cancel L i q =
    (case find_job i q of
       None \<Rightarrow> Inl (UseAfterFree ''Database.cxx'' 132)
     | Some j \<Rightarrow>
         Inr (if queue_Cancel L (job_stage j) then delete_job i q
              else set_job (j\<lparr>job_canceled := True\<rparr>) q))"

section \<open>Invariants of the database object\<close>

text \<open>The files that may be opened: the configured one, or with automatic reload a copy.\<close>

definition user_db_file :: "Database \<Rightarrow> string \<Rightarrow> bool" where
  "user_db_file d file \<longleftrightarrow>
     (if auto_reload d then \<exists>dir. file = dir @ ''/user.db'' else db_path d = Some file)"

text \<open>
  Exactly the handle of \<open>db\<close> is open; without automatic reload a configured database is
  open; with it, once a modification time was seen, the database is open or the error that
  prevented it is recorded, never both.  Every file that was opened is a file of the user
  database, and \<open>db\<close> is the handle of one.
\<close>

definition db_inv :: "Database \<Rightarrow> bool" where
  "db_inv d \<longleftrightarrow>
     open_handles d = (case db d of None \<Rightarrow> [] | Some h \<Rightarrow> [h]) \<and>
     (\<not> auto_reload d \<longrightarrow> last_reload_error d = None \<and> (db_path d \<noteq> None \<longrightarrow> db d \<noteq> None)) \<and>
     (auto_reload d \<and> last_mtime d \<noteq> 0 \<longrightarrow> (db d = None \<longleftrightarrow> last_reload_error d \<noteq> None)) \<and>
     (db d \<noteq> None \<longrightarrow> last_reload_error d = None) \<and>
     (\<forall>h. db d = Some h \<longrightarrow> h \<in> fst ` set (opened d)) \<and>
     (\<forall>(h, file) \<in> set (opened d). user_db_file d file \<and> db_path d \<noteq> None)"

lemma new_BerkeleyDB_eq:
  "new_BerkeleyDB path create db_open hs =
    Inr (if fst create \<noteq> 0 then (hs, Inl (RuntimeError ''db_create() failed'' (fst create)))
         else if db_open path \<noteq> 0 then (hs, Inl (RuntimeError ''db_open() failed'' (db_open path)))
         else (snd create # hs, Inr (Some (snd create))))"
  by (cases create)
    (simp add: new_BerkeleyDB_def BerkeleyDB_Create_def BerkeleyDB_Open_def db_close_def)

lemma BerkeleyDB_assign_own:
  "hs = (case old of None \<Rightarrow> [] | Some h \<Rightarrow> [h]) \<Longrightarrow> BerkeleyDB_assign old src hs = Inr (src, [])"
  by (auto simp: BerkeleyDB_assign_def BerkeleyDB_destroy_def db_close_def split: option.splits)

lemma assign_new_BerkeleyDB_eq:
  assumes "db d = None" and "open_handles d = []"
  shows "assign_new_BerkeleyDB path create db_open d =
    Inr (if fst create \<noteq> 0 then (d, Some (RuntimeError ''db_create() failed'' (fst create)))
         else if db_open path \<noteq> 0 then (d, Some (RuntimeError ''db_open() failed'' (db_open path)))
         else (d\<lparr>db := Some (snd create), open_handles := [snd create],
                 opened := (snd create, path) # opened d\<rparr>, None))"
  using assms
  by (simp add: assign_new_BerkeleyDB_def new_BerkeleyDB_eq BerkeleyDB_assign_def BerkeleyDB_destroy_def)

text \<open>A database object with an open file; one whose file could not be opened.\<close>

abbreviation with_file :: "nat \<Rightarrow> string \<Rightarrow> Database \<Rightarrow> Database" where
  "with_file h file d \<equiv> d\<lparr>db := Some h, open_handles := [h], opened := (h, file) # opened d\<rparr>"

abbreviation closed_at :: "int \<Rightarrow> exn option \<Rightarrow> Database \<Rightarrow> Database" where
  "closed_at t err d \<equiv> d\<lparr>last_mtime := t, db := None, open_handles := [], last_reload_error := err\<rparr>"

lemma DoAutoReload_from_closed:
  assumes "auto_reload d" and "db d = None" and "open_handles d = []"
  shows "(\<exists>dir. DoAutoReload env path sz d = Inr (with_file (snd (re_create env)) (dir @ ''/user.db'') d, None)) \<or>
    (\<exists>e. DoAutoReload env path sz d = Inr (d, Some e))"
  using assms
  by (auto simp: DoAutoReload_def assign_new_BerkeleyDB_eq Let_def split: option.splits)

text \<open>The four ways \<open>MaybeAutoReload\<close> can end.\<close>

lemma MaybeAutoReload_cases:
  assumes "auto_reload d" and "db_inv d"
  obtains (unreadable) e where
      "case stat_path env d of Inl _ \<Rightarrow> True | Inr (path, st) \<Rightarrow> \<not> st_isreg st"
      "MaybeAutoReload env d = Inr (d, Some e)"
  | (unchanged) path st where "stat_path env d = Inr (path, st)" "st_isreg st" "st_mtime st = last_mtime d"
      "MaybeAutoReload env d = Inr (d, last_reload_error d)"
  | (loaded) path st dir where "stat_path env d = Inr (path, st)" "st_isreg st" "st_mtime st \<noteq> last_mtime d"
      "MaybeAutoReload env d = 
         Inr (with_file (snd (re_create env)) (dir @ ''/user.db'') (closed_at (st_mtime st) None d), None)"
  | (failed) path st e where "stat_path env d = Inr (path, st)" "st_isreg st" "st_mtime st \<noteq> last_mtime d"
      "MaybeAutoReload env d = Inr (closed_at (st_mtime st) (Some e) d, Some e)"
proof (cases "stat_path env d")
  case (Inl e)
  with assms(1) show thesis by (intro unreadable) (simp_all add: MaybeAutoReload_def)
next
  case (Inr r)
  obtain path st where r: "stat_path env d = Inr (path, st)" using Inr by (cases r) simp
  consider "\<not> st_isreg st" | "st_isreg st" "st_mtime st = last_mtime d"
    | "st_isreg st" "st_mtime st \<noteq> last_mtime d" by blast
  then show thesis
  proof cases
    case 1
    with r assms(1) show thesis by (intro unreadable) (simp_all add: MaybeAutoReload_def)
  next
    case 2
    with r assms(1) show thesis by (intro unchanged [of path st]) (simp_all add: MaybeAutoReload_def)
  next
    case 3
    let ?d = "closed_at (st_mtime st) None d"
    have "BerkeleyDB_assign (db d) None (open_handles d) = Inr (None, [])"
      using assms(2) by (intro BerkeleyDB_assign_own) (simp add: db_inv_def)
    then have M: "MaybeAutoReload env d = bind_r (DoAutoReload env path (st_size st) ?d)
        (\<lambda>(d, err). case err of None \<Rightarrow> Inr (d, None) | Some e \<Rightarrow> Inr (d\<lparr>last_reload_error := Some e\<rparr>, Some e))"
      using r 3 assms(1) by (simp add: MaybeAutoReload_def)
    have "auto_reload ?d" using assms(1) by simp
    from DoAutoReload_from_closed [OF this, of env path "st_size st"] show thesis
    proof
      assume "\<exists>dir. DoAutoReload env path (st_size st) ?d =
        Inr (with_file (snd (re_create env)) (dir @ ''/user.db'') ?d, None)"
      with M r 3 show thesis by (auto intro: loaded)
    next
      assume "\<exists>e. DoAutoReload env path (st_size st) ?d = Inr (?d, Some e)"
      with M r 3 show thesis by (auto intro: failed)
    qed simp_all
  qed
qed

lemma db_inv_closed_at: "db_inv d \<Longrightarrow> auto_reload d \<Longrightarrow> db_inv (closed_at t (Some e) d)"
  by (auto simp: db_inv_def user_db_file_def)

lemma db_inv_with_file:
  "db_inv d \<Longrightarrow> auto_reload d \<Longrightarrow> db_path d \<noteq> None \<Longrightarrow> db_inv (with_file h (dir @ ''/user.db'') (closed_at t None d))"
  by (auto simp: db_inv_def user_db_file_def)

lemma stat_path_Inr: "stat_path env d = Inr (path, st) \<longleftrightarrow> db_path d = Some path \<and> re_stat env = Inr st"
  by (auto simp: stat_path_def split: option.splits sum.splits)

text \<open>The same for \<open>CheckCredentials\<close>.\<close>

lemma CheckCredentials_cases:
  assumes "db_inv d"
  obtains (throws) d' e where "CheckCredentials env d = Inr (d', CheckThrows e)" "db_inv d'"
      "auto_reload d'" "auto_reload d"
  | (checks) d' where "CheckCredentials env d = Inr (d', QueueJob)" "db_inv d'" "db d' \<noteq> None"
  | (accepts) "CheckCredentials env d = Inr (d, CallbackNow True)" "db d = None"
      "last_reload_error d = None"
      "auto_reload d \<Longrightarrow> \<exists>st. re_stat env = Inr st \<and> st_isreg st \<and> st_mtime st = last_mtime d \<and> last_mtime d = 0"
proof (cases "auto_reload d")
  case False
  then have "CheckCredentials env d = Inr (d, if db d = None then CallbackNow True else QueueJob)"
    by (simp add: CheckCredentials_def)
  with False assms show thesis
    by (cases "db d = None") (auto intro: checks accepts simp: db_inv_def)
next
  case True
  from True assms show thesis
  proof (cases rule: MaybeAutoReload_cases [of d env])
    case (unreadable e)
    then show thesis using True assms by (intro throws [of d e]) (simp_all add: CheckCredentials_def)
  next
    case (unchanged path st)
    show thesis
    proof (cases "last_reload_error d")
      case None
      have "db d = None \<Longrightarrow> last_mtime d = 0" using assms True None by (auto simp: db_inv_def)
      with None unchanged True assms show thesis
        by (cases "db d") (auto intro: checks [of d] accepts simp: CheckCredentials_def stat_path_Inr)
    next
      case (Some e)
      with unchanged True assms show thesis
        by (intro throws [of d e]) (simp_all add: CheckCredentials_def)
    qed
  next
    case (loaded path st dir)
    with True assms show thesis
      by (intro checks [OF _ db_inv_with_file [where d = d and dir = dir and t = "st_mtime st"]])
        (auto simp: CheckCredentials_def stat_path_Inr)
  next
    case (failed path st e)
    with True assms show thesis
      by (intro throws [OF _ db_inv_closed_at [where d = d and t = "st_mtime st" and e = e]]) (simp_all add: CheckCredentials_def)
  qed
qed

section \<open>The database as a state machine\<close>

definition db_init :: "Database \<Rightarrow> bool" where
  "db_init d \<longleftrightarrow> (\<exists>p reload create db_open. new_Database p reload create db_open = Inr (Inr d))"

definition db_step :: "Database \<Rightarrow> reload_env \<Rightarrow> Database \<Rightarrow> bool" where
  "db_step d env d' \<longleftrightarrow> (\<exists>act. CheckCredentials env d = Inr (d', act))"

lemma db_inv_new:
  assumes "new_Database p reload create db_open = Inr (Inr d)"
  shows "db_inv d"
  using assms
  by (auto simp: new_Database_def assign_new_BerkeleyDB_eq db_inv_def user_db_file_def Let_def
      split: if_splits option.splits)

lemma db_inv_step: "db_inv d \<Longrightarrow> CheckCredentials env d = Inr (d', act) \<Longrightarrow> db_inv d'"
  by (cases rule: CheckCredentials_cases [of d env]) auto

lemma Database_destroy_closes: "db_inv d \<Longrightarrow> Database_destroy d = Inr (d\<lparr>open_handles := []\<rparr>)"
  by (auto simp: Database_destroy_def BerkeleyDB_destroy_def db_close_def db_inv_def split: option.splits)

interpretation db_machine: invariant_of db_init db_step db_inv
  by unfold_locales (auto simp: db_init_def db_step_def intro: db_inv_new db_inv_step)

text \<open>How a database object changes: its settings stay, and more files have been opened.\<close>

definition db_extends :: "Database \<Rightarrow> Database \<Rightarrow> bool" where
  "db_extends d d' \<longleftrightarrow>
     auto_reload d' = auto_reload d \<and> db_path d' = db_path d \<and> set (opened d) \<subseteq> set (opened d')"

lemma db_extends_refl [simp]: "db_extends d d"
  by (simp add: db_extends_def)

lemma db_extends_trans: "db_extends d d' \<Longrightarrow> db_extends d' d'' \<Longrightarrow> db_extends d d''"
  by (auto simp: db_extends_def)

lemma CheckCredentials_frame [frame]:
  assumes "db_inv d" and "CheckCredentials env d = Inr (d', act)"
  shows "db_extends d d'"
proof (cases "auto_reload d")
  case True
  from True assms(1) show ?thesis
    by (cases rule: MaybeAutoReload_cases [of d env])
      (use assms(2) True in \<open>auto simp: CheckCredentials_def db_extends_def split: option.splits\<close>)
qed (use assms(2) in \<open>simp add: CheckCredentials_def\<close>)

section \<open>Properties of the database\<close>


text \<open>
  C18. When credentials are accepted without a password check.  With a configured user database,
  \<open>CheckCredentials\<close> throws or queues a check in every reachable state, with one exception: with automatic reload, as
  long as no file was ever loaded, a database file whose modification time is 0 is taken for the one that was already
  loaded, and every user name is accepted with every password.
\<close>

theorem no_password_bypass:
  assumes "reach db_init db_step d" and "db_path d \<noteq> None"
  shows "\<exists>d' act. CheckCredentials env d = Inr (d', act) \<and>
    (if auto_reload d \<and> db d = None \<and> last_reload_error d = None \<and>
        (\<exists>st. re_stat env = Inr st \<and> st_isreg st \<and> st_mtime st = 0)
     then act = CallbackNow True
     else (\<exists>e. act = CheckThrows e) \<or> act = QueueJob \<and> db d' \<noteq> None)"
    (is "\<exists>d' act. _ \<and> (if ?bypass then _ else _)")
proof -
  have inv: "db_inv d" using assms(1) by (rule db_machine.reach_inv)
  show ?thesis
  proof (cases ?bypass)
    case True
    with inv have "last_mtime d = 0" by (auto simp: db_inv_def)
    with True assms(2) show ?thesis by (auto simp: CheckCredentials_def MaybeAutoReload_def stat_path_def)
  next
    case False
    from inv show ?thesis
    proof (cases rule: CheckCredentials_cases [of d env])
      case accepts
      then show ?thesis using assms(2) inv False by (cases "auto_reload d") (auto simp: db_inv_def)
    qed (use False in auto)
  qed
qed

text \<open>
  C34. A user database that could not be loaded stays rejected: after a check that threw
  although the file could be examined, every further check throws the same error and
  changes nothing, until the file's modification time changes.
\<close>

theorem reload_error_sticks:
  assumes "reach db_init db_step d"
    and "CheckCredentials env d = Inr (d1, CheckThrows e)"
    and "re_stat env = Inr st" and "st_isreg st"
    and "re_stat env' = Inr st'" and "st_isreg st'" and "st_mtime st' = st_mtime st"
  shows "CheckCredentials env' d1 = Inr (d1, CheckThrows e)"
proof -
  have inv: "db_inv d" using assms(1) by (rule db_machine.reach_inv)
  have auto: "auto_reload d"
    using assms(2) by (cases "auto_reload d") (auto simp: CheckCredentials_def split: if_splits)
  from auto inv show ?thesis
  proof (cases rule: MaybeAutoReload_cases [of d env])
    case (unreadable e')
    with assms(3,4) have "db_path d = None" by (cases "db_path d") (simp_all add: stat_path_def)
    with auto assms(2) show ?thesis by (auto simp: CheckCredentials_def MaybeAutoReload_def stat_path_def)
  qed (use auto assms(2-) in
      \<open>auto simp: CheckCredentials_def MaybeAutoReload_def stat_path_def split: option.splits if_splits\<close>)
qed

lemma CheckPassword_True_iff:
  "CheckPassword L dbget user pass d = Inr True \<longleftrightarrow>
     length user \<le> 30 \<and>
     (\<exists>h v. db d = Some h \<and> h \<in> set (open_handles d) \<and>
        dbget h (map (ToUpperASCII L) user) (crypto_pwhash_STRBYTES L) = DbFound v \<and>
        v \<noteq> [] \<and> length v < crypto_pwhash_STRBYTES L \<and>
        crypto_pwhash_str_verify L (ExtractString v) pass = 0)"
  by (auto simp: CheckPassword_def BerkeleyDB_Get_def res_simps Let_def
      split: option.splits if_splits get_answer.splits)

text \<open>
  C19. A password check accepts exactly if the user name has at most 30 characters,
  the open database has a value for its upper-case form that is neither empty nor too long
  for a password hash, and libsodium verifies the password against it; in particular
  two spellings of a user name that differ in case are the same user.
\<close>

theorem CheckPassword_accepts_iff:
  "(CheckPassword L dbget user pass d = Inr True \<longleftrightarrow>
     length user \<le> 30 \<and>
     (\<exists>h v. db d = Some h \<and> h \<in> set (open_handles d) \<and>
        dbget h (map (ToUpperASCII L) user) (crypto_pwhash_STRBYTES L) = DbFound v \<and>
        v \<noteq> [] \<and> length v < crypto_pwhash_STRBYTES L \<and>
        crypto_pwhash_str_verify L (ExtractString v) pass = 0)) \<and>
   (map (ToUpperASCII L) user' = map (ToUpperASCII L) user \<longrightarrow>
     CheckPassword L dbget user' pass d = CheckPassword L dbget user pass d)"
proof (rule conjI, rule CheckPassword_True_iff)
  have "length user' = length user"
    if "map (ToUpperASCII L) user' = map (ToUpperASCII L) user"
    using that by (metis length_map)
  then show "map (ToUpperASCII L) user' = map (ToUpperASCII L) user \<longrightarrow>
     CheckPassword L dbget user' pass d = CheckPassword L dbget user pass d"
    by (auto simp: CheckPassword_def)
qed

text \<open>
  C35. An error of libdb other than a missing key, such as a value that does not fit into the
  buffer, ends the process: \<open>BerkeleyDB::Get\<close> throws inside the \<open>noexcept\<close>
  function \<open>CheckPassword\<close>.
\<close>

theorem db_error_terminates:
  assumes "db_inv d" and "db d = Some h" and "length user \<le> 30"
    and "dbget h (map (ToUpperASCII L) user) (crypto_pwhash_STRBYTES L) = DbError ret"
  shows "CheckPassword L dbget user pass d = Inl (StdTerminate ''Database.cxx'' 140)"
  using assms
  by (simp add: CheckPassword_def BerkeleyDB_Get_def db_inv_def noexcept_def Let_def)

subsection \<open>Witnesses\<close>

definition sample_db :: Database where
  "sample_db = \<lparr>db = None, db_path = Some ''users.db'', last_mtime = 0, last_reload_error = None,
     auto_reload = True, open_handles = [], opened = []\<rparr>"

definition sample_env :: reload_env where
  "sample_env = \<lparr>re_stat = Inr \<lparr>st_isreg = True, st_mtime = 1700000000, st_size = 4096\<rparr>,
     re_runtime_directory = Some ''/run/uologin'', re_open_src = (\<lambda>_. None), re_open_dst = (\<lambda>_. None),
     re_copy = (\<lambda>_ _ _. None), re_create = (0, 7), re_open = (\<lambda>_. 0)\<rparr>"

definition sample_loaded :: Database where
  "sample_loaded = sample_db\<lparr>last_mtime := 1700000000, db := Some 7, open_handles := [7], opened := [(7, ''/run/uologin/user.db'')]\<rparr>"

definition sample_dbget :: "nat \<Rightarrow> string \<Rightarrow> nat \<Rightarrow> get_answer" where
  "sample_dbget h key n =
    (if key = ''ALICE'' then DbFound ''$secret''
     else if key = ''BIG'' then DbError (-30999) else DbNotFound)"

lemmas sample_db_simps =
  sample_db_def sample_env_def sample_loaded_def CheckCredentials_def MaybeAutoReload_def
  DoAutoReload_def CopyRegularFile_def assign_new_BerkeleyDB_eq BerkeleyDB_assign_def
  BerkeleyDB_destroy_def stat_path_def Let_def

lemma sample_db_init: "db_init sample_db"
  by (auto simp: db_init_def new_Database_def sample_db_def Let_def intro!: exI [of _ "Some _"] exI [of _ True])

lemma sample_db_reach: "reach db_init db_step sample_db"
  by (rule reach_init) (rule sample_db_init)

lemma sample_loaded_inv: "db_inv sample_loaded"
  by (simp add: db_inv_def user_db_file_def sample_loaded_def sample_db_def)

lemma sample_check: "CheckCredentials sample_env sample_db = Inr (sample_loaded, QueueJob)"
  by (simp add: sample_db_simps)


theorem no_password_bypass_witness:
  "(\<exists>d' act. CheckCredentials sample_env sample_db = Inr (d', act) \<and>
      ((\<exists>e. act = CheckThrows e) \<or> act = QueueJob \<and> db d' \<noteq> None)) \<and>
   (\<exists>d'. CheckCredentials (sample_env\<lparr>re_stat := Inr \<lparr>st_isreg = True, st_mtime = 0, st_size = 1\<rparr>\<rparr>) sample_db =
      Inr (d', CallbackNow True))"
  using no_password_bypass [OF sample_db_reach, of sample_env]
    no_password_bypass [OF sample_db_reach,
      of "sample_env\<lparr>re_stat := Inr \<lparr>st_isreg = True, st_mtime = 0, st_size = 1\<rparr>\<rparr>"]
  by (simp add: sample_db_def sample_env_def)

theorem reload_error_sticks_witness:
  "CheckCredentials sample_env
     (sample_db\<lparr>last_mtime := 1700000000,
        last_reload_error := Some (RuntimeError ''db_open() failed'' 22)\<rparr>) =
   Inr (sample_db\<lparr>last_mtime := 1700000000,
        last_reload_error := Some (RuntimeError ''db_open() failed'' 22)\<rparr>,
        CheckThrows (RuntimeError ''db_open() failed'' 22))"
  by (rule reload_error_sticks [OF sample_db_reach, where env = "sample_env\<lparr>re_open := \<lambda>_. 22\<rparr>"
        and st = "\<lparr>st_isreg = True, st_mtime = 1700000000, st_size = 4096\<rparr>"
        and st' = "\<lparr>st_isreg = True, st_mtime = 1700000000, st_size = 4096\<rparr>"])
    (simp_all add: sample_db_simps)

lemma sample_upper:
  "map (ToUpperASCII ref_lib) ''alice'' = ''ALICE''"
  "map (ToUpperASCII ref_lib) ''ALICE'' = ''ALICE''"
  "map (ToUpperASCII ref_lib) ''big'' = ''BIG''"
  by (simp_all only: ref_lib_def lib.simps, code_simp+)

theorem CheckPassword_accepts_iff_witness:
  "CheckPassword ref_lib sample_dbget ''alice'' ''secret'' sample_loaded = Inr True \<and>
   CheckPassword ref_lib sample_dbget ''ALICE'' ''secret'' sample_loaded = Inr True"
proof -
  have "sample_dbget 7 ''ALICE'' 128 = DbFound ''$secret''"
    by (simp add: sample_dbget_def)
  moreover have "crypto_pwhash_str_verify ref_lib (ExtractString ''$secret'') ''secret'' = 0"
    and "crypto_pwhash_STRBYTES ref_lib = 128"
    by (simp_all add: ref_lib_def ExtractString_def)
  ultimately have "CheckPassword ref_lib sample_dbget ''alice'' ''secret'' sample_loaded = Inr True"
    using CheckPassword_accepts_iff [of ref_lib sample_dbget "''alice''" "''secret''" sample_loaded]
    unfolding sample_upper by (simp add: sample_loaded_def sample_db_def)
  then show ?thesis
    using CheckPassword_accepts_iff [of ref_lib sample_dbget "''alice''" "''secret''" sample_loaded "''ALICE''"]
    unfolding sample_upper by metis
qed

theorem db_error_terminates_witness:
  "CheckPassword ref_lib sample_dbget ''big'' ''x'' sample_loaded =
   Inl (StdTerminate ''Database.cxx'' 140)"
  by (rule db_error_terminates [where h = 7 and ret = "-30999"], unfold sample_upper)
    (simp_all add: sample_loaded_inv, simp_all add: sample_loaded_def sample_db_def sample_dbget_def)

section \<open>The life of a job\<close>

text \<open>
  The steps of the job queue: the main thread queues, cancels and finishes jobs, a worker
  takes and runs them.  An event carries the callback that was called, if any.
\<close>

datatype 'cb queue_event =
    QAdd nat string string 'cb
  | QTake nat
  | QEnter nat "nat option"
  | QRun nat bool
  | QDone nat "('cb \<times> string \<times> bool) option"
  | QCancel nat

text \<open>
  The owner of a job's \<open>cancel_ptr\<close> cancels at most once and never after the callback;
  job identities are not reused.  \<open>used\<close> are the identities handed out so far,
  \<open>live\<close> those whose owner can still cancel.
\<close>

record 'cb queue_state =
  qs_queue :: "'cb job_queue"
  qs_used :: "nat set"
  qs_live :: "nat set"

inductive queue_step :: "lib \<Rightarrow> 'cb queue_state \<Rightarrow> 'cb queue_event \<Rightarrow> 'cb queue_state \<Rightarrow> bool"
  for L :: lib where
  q_add: "i \<notin> qs_used s \<Longrightarrow>
    queue_step L s (QAdd i user pass cb)
      (s\<lparr>qs_queue := queue_Add (new_CheckCredentialsJob i user pass cb) (qs_queue s),
         qs_used := insert i (qs_used s), qs_live := insert i (qs_live s)\<rparr>)"
| q_take: "job_Take i (qs_queue s) = Some q \<Longrightarrow> queue_step L s (QTake i) (s\<lparr>qs_queue := q\<rparr>)"
| q_enter: "find_job i (qs_queue s) = Some j \<Longrightarrow> job_stage j = JobBusy \<Longrightarrow>
    queue_step L s (QEnter i h) (s\<lparr>qs_queue := set_job (j\<lparr>job_handle := Some h\<rparr>) (qs_queue s)\<rparr>)"
| q_run: "find_job i (qs_queue s) = Some j \<Longrightarrow> job_stage j = JobBusy \<Longrightarrow>
    queue_step L s (QRun i r)
      (s\<lparr>qs_queue := set_job (j\<lparr>job_result := r, job_stage := JobDone\<rparr>) (qs_queue s)\<rparr>)"
| q_done: "find_job i (qs_queue s) = Some j \<Longrightarrow> job_stage j = JobDone \<Longrightarrow>
    job_Done i (qs_queue s) = Inr (cb, q) \<Longrightarrow>
    queue_step L s (QDone i cb) (s\<lparr>qs_queue := q, qs_live := qs_live s - {i}\<rparr>)"
| q_cancel: "i \<in> qs_live s \<Longrightarrow> job_Cancel L i (qs_queue s) = Inr q \<Longrightarrow>
    queue_step L s (QCancel i) (s\<lparr>qs_queue := q, qs_live := qs_live s - {i}\<rparr>)"

definition queue_init :: "'cb queue_state \<Rightarrow> bool" where
  "queue_init s \<longleftrightarrow> qs_queue s = [] \<and> qs_used s = {} \<and> qs_live s = {}"

text \<open>
  Identities are distinct; a job that can still be cancelled is in the queue and is not
  cancelled; a job that cannot be cancelled any more but is still there was cancelled.
\<close>

definition queue_inv :: "'cb queue_state \<Rightarrow> bool" where
  "queue_inv s \<longleftrightarrow>
     distinct (map job_id (qs_queue s)) \<and>
     job_id ` set (qs_queue s) \<subseteq> qs_used s \<and>
     qs_live s = job_id ` {j \<in> set (qs_queue s). \<not> job_canceled j}"

lemma find_job_id: "find_job i q = Some j \<Longrightarrow> job_id j = i \<and> j \<in> set q"
  by (auto simp: find_job_def find_Some_iff)

lemma set_job_ids [simp]: "map job_id (set_job j q) = map job_id q"
  by (auto simp: set_job_def)

lemma uncanceled_ids:
  "job_id ` {k \<in> set q. \<not> job_canceled k} =
   fst ` {p \<in> set (map (\<lambda>k. (job_id k, job_canceled k)) q). \<not> snd p}"
proof -
  have "{p \<in> set (map (\<lambda>k. (job_id k, job_canceled k)) q). \<not> snd p} =
      (\<lambda>k. (job_id k, job_canceled k)) ` {k \<in> set q. \<not> job_canceled k}" by auto
  then show ?thesis by (simp add: image_image)
qed

lemma queue_inv_set_job:
  assumes "queue_inv s" and "find_job (job_id j) (qs_queue s) = Some j0"
    and "job_canceled j = job_canceled j0"
  shows "queue_inv (s\<lparr>qs_queue := set_job j (qs_queue s)\<rparr>)"
proof -
  have dist: "distinct (map job_id (qs_queue s))" using assms(1) by (simp add: queue_inv_def)
  have j0: "job_id j0 = job_id j" "j0 \<in> set (qs_queue s)"
    using find_job_id [OF assms(2)] by auto
  have uniq: "k = j0" if "k \<in> set (qs_queue s)" "job_id k = job_id j" for k
    using dist j0 that by (auto simp: distinct_map inj_on_def)
  have "map (\<lambda>k. (job_id k, job_canceled k)) (set_job j (qs_queue s)) =
      map (\<lambda>k. (job_id k, job_canceled k)) (qs_queue s)"
    using uniq assms(3) by (auto simp: set_job_def)
  then have "job_id ` {k \<in> set (set_job j (qs_queue s)). \<not> job_canceled k} =
      job_id ` {k \<in> set (qs_queue s). \<not> job_canceled k}"
    by (simp only: uncanceled_ids)
  moreover have "job_id ` set (set_job j (qs_queue s)) = job_id ` set (qs_queue s)"
    using set_job_ids [of j "qs_queue s"] by (metis list.set_map)
  ultimately show ?thesis using assms(1) by (simp add: queue_inv_def)
qed

lemma queue_inv_unique:
  "queue_inv s \<Longrightarrow> j \<in> set (qs_queue s) \<Longrightarrow> k \<in> set (qs_queue s) \<Longrightarrow> job_id j = job_id k \<Longrightarrow> j = k"
  by (auto simp: queue_inv_def distinct_map inj_on_def)

lemma queue_inv_delete:
  assumes "queue_inv s"
  shows "queue_inv (s\<lparr>qs_queue := delete_job i (qs_queue s), qs_live := qs_live s - {i}\<rparr>)"
  using assms by (auto simp: queue_inv_def delete_job_def distinct_map_filter)

lemma queue_inv_cancel:
  assumes "queue_inv s" and "find_job i (qs_queue s) = Some j"
  shows "queue_inv (s\<lparr>qs_queue := set_job (j\<lparr>job_canceled := True\<rparr>) (qs_queue s),
    qs_live := qs_live s - {i}\<rparr>)"
proof -
  have j: "job_id j = i" "j \<in> set (qs_queue s)" using find_job_id [OF assms(2)] by auto
  have "job_id ` {k \<in> set (set_job (j\<lparr>job_canceled := True\<rparr>) (qs_queue s)). \<not> job_canceled k} =
      job_id ` {k \<in> set (qs_queue s). \<not> job_canceled k} - {i}"
    using j by (auto simp: set_job_def)
  moreover have "job_id ` set (set_job (j\<lparr>job_canceled := True\<rparr>) (qs_queue s)) =
      job_id ` set (qs_queue s)"
    using set_job_ids [of "j\<lparr>job_canceled := True\<rparr>" "qs_queue s"] by (metis list.set_map)
  ultimately show ?thesis using assms(1) by (simp add: queue_inv_def)
qed

context thread_queue
begin

lemma queue_step_inv:
  assumes "queue_inv s" and "queue_step L s e t"
  shows "queue_inv t"
  using assms(2,1)
proof cases
  case (q_add i user pass cb)
  let ?j = "new_CheckCredentialsJob i user pass cb"
  have "{k \<in> set (qs_queue s @ [?j]). \<not> job_canceled k} =
      insert ?j {k \<in> set (qs_queue s). \<not> job_canceled k}"
    by (auto simp: new_CheckCredentialsJob_def)
  moreover have "job_id ?j = i" by (simp add: new_CheckCredentialsJob_def)
  ultimately show ?thesis
    using assms(1) q_add by (auto simp: queue_inv_def queue_Add_def)
next
  case (q_take i q)
  then obtain j where j: "find_job i (qs_queue s) = Some j"
    and t: "t = s\<lparr>qs_queue := set_job (j\<lparr>job_stage := JobBusy\<rparr>) (qs_queue s)\<rparr>"
    by (auto simp: job_Take_def split: option.splits if_splits)
  then show ?thesis
    using queue_inv_set_job [OF assms(1), of "j\<lparr>job_stage := JobBusy\<rparr>" j] find_job_id [OF j] by simp
next
  case (q_enter i j h)
  then show ?thesis
    using queue_inv_set_job [OF assms(1), of "j\<lparr>job_handle := Some h\<rparr>" j] find_job_id by fastforce
next
  case (q_run i j r)
  then show ?thesis
    using queue_inv_set_job [OF assms(1), of "j\<lparr>job_result := r, job_stage := JobDone\<rparr>" j]
      find_job_id by fastforce
next
  case (q_done i j cb q)
  then show ?thesis
    using queue_inv_delete [OF assms(1), of i] by (simp add: job_Done_def)
next
  case (q_cancel i q)
  then show ?thesis
    using queue_inv_delete [OF assms(1), of i] queue_inv_cancel [OF assms(1), of i]
    by (auto simp: job_Cancel_def split: option.splits if_splits)
qed

lemma queue_inv: "invariant_of queue_init (queue_step L) queue_inv"
proof
  fix s :: "'cb queue_state"
  assume "queue_init s"
  then show "queue_inv s" by (simp add: queue_init_def queue_inv_def)
qed (rule queue_step_inv)

end

sublocale thread_queue \<subseteq> queue_machine: invariant_of queue_init "queue_step L" queue_inv
  by (rule queue_inv)

text \<open>
  C21. In every reachable state of the job queue: a job whose owner has not cancelled it and
  has not been called back is still there, so that cancelling it through
  \<open>cancel_ptr\<close> does not touch freed memory; and when a job finishes, it is
  deleted, and the callback is called exactly if the job was not cancelled.
\<close>

theorem job_lifecycle:
  fixes s :: "'cb queue_state"
  assumes "thread_queue L" and "reach queue_init (queue_step L) s"
  shows "(i \<in> qs_live s \<longrightarrow> (\<exists>q. job_Cancel L i (qs_queue s) = Inr q)) \<and>
    (find_job i (qs_queue s) = Some j \<longrightarrow>
      job_Done i (qs_queue s) =
        Inr (if i \<in> qs_live s then Some (job_callback j, job_username j, job_result j) else None,
             delete_job i (qs_queue s)) \<and>
      find_job i (delete_job i (qs_queue s)) = None)"
proof -
  have inv: "queue_inv s"
    using invariant_of.reach_inv [OF thread_queue.queue_inv [OF assms(1)] assms(2)] .
  have "\<exists>q. job_Cancel L i (qs_queue s) = Inr q" if "i \<in> qs_live s"
  proof -
    from that inv obtain j where "j \<in> set (qs_queue s)" "job_id j = i"
      by (auto simp: queue_inv_def)
    then obtain k where "find_job i (qs_queue s) = Some k"
      by (cases "find_job i (qs_queue s)") (auto simp: find_job_def find_None_iff)
    then show ?thesis by (simp add: job_Cancel_def)
  qed
  moreover have "i \<in> qs_live s \<longleftrightarrow> \<not> job_canceled j" if "find_job i (qs_queue s) = Some j"
    using find_job_id [OF that] inv queue_inv_unique [OF inv]
    by (auto simp: queue_inv_def)
  moreover have "find_job i (delete_job i (qs_queue s)) = None"
    by (auto simp: find_job_def delete_job_def find_None_iff)
  ultimately show ?thesis by (simp add: job_Done_def)
qed

definition sample_job :: "nat CheckCredentialsJob" where
  "sample_job = new_CheckCredentialsJob 1 ''alice'' ''secret'' 9"

theorem job_lifecycle_witness:
  "\<exists>q. job_Cancel ref_lib 1 [sample_job] = Inr q"
proof -
  let ?s0 = "\<lparr>qs_queue = [], qs_used = {}, qs_live = {}\<rparr> :: nat queue_state"
  let ?s1 = "\<lparr>qs_queue = [sample_job], qs_used = {1}, qs_live = {1}\<rparr>"
  have "reach queue_init (queue_step ref_lib) ?s0"
    by (rule reach_init) (simp add: queue_init_def)
  moreover have "queue_step ref_lib ?s0 (QAdd 1 ''alice'' ''secret'' 9) ?s1"
    using q_add [of 1 ?s0 ref_lib "''alice''" "''secret''" 9]
    by (simp add: queue_Add_def sample_job_def)
  ultimately have "reach queue_init (queue_step ref_lib) ?s1"
    by (rule reach_step)
  from job_lifecycle [OF ref_queue.thread_queue_axioms this, of 1] show ?thesis by simp
qed

text \<open>
  C36. Checks are not safe against reloads.  Whenever the file has changed, the next check closes the database
  before it loads the new file; a job that has read the handle by then uses it after it was
  closed, unless libdb happens to hand out the same one again, and a job that reads it afterwards stops the process at
  an assertion if the file could not be loaded.
\<close>

theorem reload_breaks_checks:
  assumes "db_inv d" and "auto_reload d" and "db d = Some h" and "snd (re_create env) \<noteq> h"
    and "re_stat env = Inr st" and "st_isreg st" and "st_mtime st \<noteq> last_mtime d"
    and "find_job i q = Some j" and "length (job_username j) \<le> 30"
  shows "\<exists>d' act. CheckCredentials env d = Inr (d', act) \<and>
    (job_handle j = Some (Some h) \<longrightarrow>
       job_Run L dbget d' i q = Inl (UseAfterFree ''BerkeleyDB.cxx'' 48)) \<and>
    (job_handle j = None \<and> (\<exists>e. act = CheckThrows e) \<longrightarrow>
       job_Run L dbget d' i q = Inl (AssertFailure ''BerkeleyDB.cxx'' 35))"
proof -
  obtain path where "db_path d = Some path" using assms(1,3) by (auto simp: db_inv_def)
  then have st: "stat_path env d = Inr (path, st)" using assms(5) by (simp add: stat_path_Inr)
  note run = job_Run_def job_database_def CheckPassword_def BerkeleyDB_Get_def noexcept_def Let_def
  from assms(2,1) show ?thesis
  proof (cases rule: MaybeAutoReload_cases [of d env])
    case (loaded path st dir)
    with assms show ?thesis by (simp add: CheckCredentials_def run)
  next
    case (failed path st e)
    with assms show ?thesis by (simp add: CheckCredentials_def run)
  qed (use st assms(6,7) in auto)
qed

theorem reload_breaks_checks_witness:
  "\<exists>d' act. CheckCredentials
      (sample_env\<lparr>re_stat := Inr \<lparr>st_isreg = True, st_mtime = 1800000000, st_size = 1\<rparr>,
                  re_create := (0, 8)\<rparr>) sample_loaded = Inr (d', act) \<and>
    job_Run ref_lib sample_dbget d' 1 [sample_job\<lparr>job_handle := Some (Some 7)\<rparr>] =
      Inl (UseAfterFree ''BerkeleyDB.cxx'' 48)"
proof -
  let ?env = "sample_env\<lparr>re_stat := Inr \<lparr>st_isreg = True, st_mtime = 1800000000, st_size = 1\<rparr>, re_create := (0, 8)\<rparr>"
    and ?q = "[sample_job\<lparr>job_handle := Some (Some 7)\<rparr>]"
  have j: "find_job 1 ?q = Some (sample_job\<lparr>job_handle := Some (Some 7)\<rparr>)" "length (job_username (hd ?q)) \<le> 30"
    by (simp_all add: find_job_def sample_job_def new_CheckCredentialsJob_def)
  have "auto_reload sample_loaded" "db sample_loaded = Some 7" "last_mtime sample_loaded = 1700000000"
    by (simp_all add: sample_loaded_def sample_db_def)
  with reload_breaks_checks [OF sample_loaded_inv, of 7 ?env] j show ?thesis by fastforce
qed

end
