(* ===== verification/Configuration.thy ===== *)
theory Configuration
  imports Libraries
begin

text \<open>
  Configuration file and command line: src/Config.hxx, src/Config.cxx,
  src/CommandLine.hxx and src/CommandLine.cxx.

  The line parser, the resolver and the address classes belong to libcommon and the
  environment variable to the process: they are the fields of \<open>config_lib\<close>, and
  \<open>'l\<close> is the type of a line parser's state.  A parse error is a C++ exception.
\<close>

section \<open>State\<close>

record GameServerConfig =
  server_name :: string
  server_address :: sock_address

text \<open>
  The members of libcommon's \<open>SocketConfig\<close> the sources name; \<open>None\<close> is the
  library's default.
\<close>

record SocketConfig =
  bind_address :: sock_address
  sc_listen :: "int option"
  tcp_defer_accept :: "int option"
  sc_mode :: "int option"
  tcp_user_timeout :: "int option"
  tcp_no_delay :: "bool option"

record Config =
  prometheus_exporter :: SocketConfig
  listener :: SocketConfig
  knock_listener :: SocketConfig
  knock_nft_set :: string
  user_database :: string
  game_server :: sock_address
  server_list :: "GameServerConfig list"
  auto_reload_user_database :: bool
  send_remote_ip :: bool

record 'l config_lib =
  cl_RUNTIME_DIRECTORY :: "string option"
  cl_LocalAddress :: "string \<Rightarrow> sock_address"
  cl_IPv4Address :: "u16 \<Rightarrow> sock_address"
  cl_Resolve :: "string \<Rightarrow> nat \<Rightarrow> exn + sock_address"
  cl_ParseSocketAddress :: "string \<Rightarrow> nat \<Rightarrow> exn + sock_address"
  cl_Fixup :: "SocketConfig \<Rightarrow> SocketConfig"
  cl_ExpectWord :: "'l \<Rightarrow> exn + (string \<times> 'l)"
  cl_NextPositiveInteger :: "'l \<Rightarrow> exn + (nat \<times> 'l)"
  cl_NextBool :: "'l \<Rightarrow> exn + (bool \<times> 'l)"
  cl_ExpectEnd :: "'l \<Rightarrow> exn + unit"
  cl_ExpectValue :: "'l \<Rightarrow> exn + (string \<times> 'l)"
  cl_ExpectValueAndEnd :: "'l \<Rightarrow> exn + string"
  cl_IsEnd :: "'l \<Rightarrow> bool"

definition default_SocketConfig :: SocketConfig where
  "default_SocketConfig =
    \<lparr>bind_address = AddrNull, sc_listen = None, tcp_defer_accept = None, sc_mode = None,
     tcp_user_timeout = None, tcp_no_delay = None\<rparr>"

text \<open>The default member initialisers, then the constructor's body.\<close>

definition Config_defaults :: Config where
  "Config_defaults =
    \<lparr>prometheus_exporter = default_SocketConfig
       \<lparr>sc_listen := Some 16, tcp_defer_accept := Some 10, sc_mode := Some 0x1b6,
        tcp_no_delay := Some True\<rparr>,
     listener = default_SocketConfig
       \<lparr>sc_listen := Some 1024, tcp_defer_accept := Some 10, tcp_user_timeout := Some 20000,
        tcp_no_delay := Some True\<rparr>,
     knock_listener = default_SocketConfig, knock_nft_set = [], user_database = [],
     game_server = AddrNull, server_list = [], auto_reload_user_database = False,
     send_remote_ip = False\<rparr>"

definition new_Config :: "'l config_lib \<Rightarrow> Config" where
  "new_Config P =
    (case cl_RUNTIME_DIRECTORY P of
       None \<Rightarrow> Config_defaults
     | Some runtime_directory \<Rightarrow>
         Config_defaults\<lparr>prometheus_exporter := (prometheus_exporter Config_defaults)
           \<lparr>bind_address := cl_LocalAddress P (runtime_directory @ ''/prometheus-exporter.socket'')\<rparr>\<rparr>)"

lemma new_Config_start [simp]: "game_server (new_Config P) = AddrNull" "server_list (new_Config P) = []"
  by (simp_all add: new_Config_def Config_defaults_def split: option.split)

section \<open>Parsing\<close>

definition ParseLine :: "'l config_lib \<Rightarrow> 'l \<Rightarrow> Config \<Rightarrow> exn + Config" where
  "ParseLine P line config =
    bind_r (cl_ExpectWord P line) (\<lambda>(word, line).
    if word = ''port'' then
      bind_r (cl_NextPositiveInteger P line) (\<lambda>(n, line).
      let port = of_nat n :: u16 in
      bind_r (cl_ExpectEnd P line) (\<lambda>_.
      Inr (config\<lparr>listener := (listener config)\<lparr>bind_address := cl_IPv4Address P port\<rparr>\<rparr>)))
    else if word = ''knock_port'' then
      bind_r (cl_NextPositiveInteger P line) (\<lambda>(n, line).
      let port = of_nat n :: u16 in
      bind_r (cl_ExpectEnd P line) (\<lambda>_.
      Inr (config\<lparr>knock_listener := (knock_listener config)\<lparr>bind_address := cl_IPv4Address P port\<rparr>\<rparr>)))
    else if word = ''knock_nft_set'' then
      bind_r (cl_ExpectValueAndEnd P line) (\<lambda>v. Inr (config\<lparr>knock_nft_set := v\<rparr>))
    else if word = ''user_database'' then
      bind_r (cl_ExpectValueAndEnd P line) (\<lambda>v. Inr (config\<lparr>user_database := v\<rparr>))
    else if word = ''auto_reload_user_database'' then
      bind_r (cl_NextBool P line) (\<lambda>(b, line).
      bind_r (cl_ExpectEnd P line) (\<lambda>_. Inr (config\<lparr>auto_reload_user_database := b\<rparr>)))
    else if word = ''game_server'' then
      bind_r (cl_ExpectValue P line) (\<lambda>(v, line).
      bind_r (cl_Resolve P v 2593) (\<lambda>address.
      let config = config\<lparr>game_server := address\<rparr> in
      if \<not> cl_IsEnd P line then
        bind_r (cl_ExpectValueAndEnd P line) (\<lambda>name.
        Inr (config\<lparr>server_list := server_list config @
               [\<lparr>server_name = name, server_address = game_server config\<rparr>]\<rparr>))
      else Inr config))
    else if word = ''send_remote_ip'' then
      bind_r (cl_NextBool P line) (\<lambda>(b, line).
      bind_r (cl_ExpectEnd P line) (\<lambda>_. Inr (config\<lparr>send_remote_ip := b\<rparr>)))
    else if word = ''prometheus_exporter'' then
      bind_r (cl_ExpectValueAndEnd P line) (\<lambda>v.
      bind_r (cl_ParseSocketAddress P v 5476) (\<lambda>address.
      Inr (config\<lparr>prometheus_exporter := (prometheus_exporter config)\<lparr>bind_address := address\<rparr>\<rparr>)))
    else Inl (RuntimeError ''Unknown option'' 0))"

definition Finish :: "'l config_lib \<Rightarrow> Config \<Rightarrow> exn + Config" where
  "Finish P config =
    (let config =
       (if bind_address (listener config) = AddrNull
        then config\<lparr>listener := (listener config)\<lparr>bind_address := cl_IPv4Address P 2593\<rparr>\<rparr>
        else config);
         config = config\<lparr>listener := cl_Fixup P (listener config),
                         knock_listener := cl_Fixup P (knock_listener config)\<rparr>
     in if game_server config = AddrNull then Inl (ThrownText ''No game_server setting'')
        else Inr config)"

text \<open>The lines of the file, without comments and empty lines, one after the other.\<close>

fun ParseLines :: "'l config_lib \<Rightarrow> 'l list \<Rightarrow> Config \<Rightarrow> exn + Config" where
  "ParseLines P [] config = Inr config"
| "ParseLines P (l # ls) config = bind_r (ParseLine P l config) (ParseLines P ls)"

definition LoadConfigFile :: "'l config_lib \<Rightarrow> 'l list \<Rightarrow> exn + Config" where
  "LoadConfigFile P lines =
    bind_r (ParseLines P lines (new_Config P)) (\<lambda>config. Finish P config)"

section \<open>Command line\<close>

record CommandLine =
  config_path :: string

definition ParseCommandLine :: "string list \<Rightarrow> exn + CommandLine" where
  "ParseCommandLine argv =
    (let argc = length argv in
     if argc > 2 then Inl (ThrownText ''Usage: uologin [CONFIGFILE]'')
     else
       let cmdline = \<lparr>config_path = ''/etc/uologin.conf''\<rparr>
       in Inr (if argc \<ge> 2 then cmdline\<lparr>config_path := argv ! 1\<rparr> else cmdline))"

section \<open>What the libraries promise\<close>

text \<open>
  A resolved address and an IPv4 address with a port are addresses, and \<open>Fixup\<close> does
  not remove one.
\<close>

locale config_library =
  fixes P :: "'l config_lib"
  assumes Resolve_nonnull: "cl_Resolve P v n = Inr a \<Longrightarrow> a \<noteq> AddrNull"
    and IPv4Address_nonnull: "cl_IPv4Address P port \<noteq> AddrNull"
    and Fixup_nonnull: "bind_address (cl_Fixup P c) = AddrNull \<longleftrightarrow> bind_address c = AddrNull"

text \<open>The name and the address a line adds to the server list, if any.\<close>

definition named_server :: "'l config_lib \<Rightarrow> 'l \<Rightarrow> GameServerConfig option" where
  "named_server P line =
    (case cl_ExpectWord P line of
       Inr (word, line) \<Rightarrow>
         if word = ''game_server'' then
           (case cl_ExpectValue P line of
              Inr (v, line) \<Rightarrow>
                if cl_IsEnd P line then None
                else (case (cl_Resolve P v 2593, cl_ExpectValueAndEnd P line) of
                    (Inr a, Inr name) \<Rightarrow> Some \<lparr>server_name = name, server_address = a\<rparr>
                  | _ \<Rightarrow> None)
            | Inl _ \<Rightarrow> None)
         else None
     | Inl _ \<Rightarrow> None)"

definition is_game_server_line :: "'l config_lib \<Rightarrow> 'l \<Rightarrow> bool" where
  "is_game_server_line P line =
    (case cl_ExpectWord P line of Inr (word, _) \<Rightarrow> word = ''game_server'' | Inl _ \<Rightarrow> False)"

section \<open>Properties\<close>

lemma ParseLine_server_list:
  "ParseLine P l c = Inr c' \<Longrightarrow>
   server_list c' = server_list c @ (case named_server P l of None \<Rightarrow> [] | Some s \<Rightarrow> [s])"
  by (auto simp: ParseLine_def named_server_def res_simps Let_def
      split: if_splits option.splits prod.splits)
    (drule arg_cong [where f = server_list], simp)

lemma ParseLines_server_list:
  "ParseLines P ls c = Inr c' \<Longrightarrow>
   server_list c' = server_list c @ List.map_filter (named_server P) ls"
proof (induction ls arbitrary: c)
  case (Cons l ls)
  then obtain c1 where c1: "ParseLine P l c = Inr c1" and rest: "ParseLines P ls c1 = Inr c'"
    by (auto simp: res_simps)
  from Cons.IH [OF rest] ParseLine_server_list [OF c1] show ?case
    by (auto simp: map_filter_simps split: option.splits)
qed (simp add: map_filter_simps)

context config_library
begin

lemma ParseLine_game_server:
  "ParseLine P l c = Inr c' \<Longrightarrow>
   (if is_game_server_line P l then game_server c' \<noteq> AddrNull else game_server c' = game_server c)"
  by (auto simp: ParseLine_def is_game_server_line_def res_simps Let_def Resolve_nonnull
      split: if_splits prod.splits)

lemma ParseLines_game_server:
  "ParseLines P ls c = Inr c' \<Longrightarrow>
   game_server c' \<noteq> AddrNull \<longleftrightarrow> game_server c \<noteq> AddrNull \<or> list_ex (is_game_server_line P) ls"
proof (induction ls arbitrary: c)
  case (Cons l ls)
  then obtain c1 where c1: "ParseLine P l c = Inr c1" and rest: "ParseLines P ls c1 = Inr c'"
    by (auto simp: res_simps)
  from Cons.IH [OF rest] ParseLine_game_server [OF c1] show ?case
    by (auto split: if_splits)
qed simp

lemma Finish_result:
  "Finish P c = Inr c' \<Longrightarrow>
   server_list c' = server_list c \<and> game_server c' = game_server c \<and> game_server c \<noteq> AddrNull \<and>
   bind_address (listener c') \<noteq> AddrNull \<and>
   (bind_address (knock_listener c') = AddrNull \<longleftrightarrow> bind_address (knock_listener c) = AddrNull)"
  by (auto simp: Finish_def Let_def Fixup_nonnull IPv4Address_nonnull split: if_splits)

end

text \<open>
  C37. A configuration that was loaded is usable: it has a game server and an address to
  listen on, and its server list has one entry for each \<open>game_server\<close> line with a name,
  in the order of the file.  A file all of whose lines are accepted is refused exactly if
  it has no \<open>game_server\<close> line.
\<close>

theorem LoadConfigFile_result:
  assumes "config_library P"
  shows "(LoadConfigFile P lines = Inr config \<longrightarrow>
      game_server config \<noteq> AddrNull \<and> bind_address (listener config) \<noteq> AddrNull \<and>
      server_list config = List.map_filter (named_server P) lines) \<and>
    (ParseLines P lines (new_Config P) = Inr c \<longrightarrow>
      (LoadConfigFile P lines = Inl (ThrownText ''No game_server setting'') \<longleftrightarrow>
       \<not> list_ex (is_game_server_line P) lines))"
proof (intro conjI impI)
  assume "LoadConfigFile P lines = Inr config"
  then obtain c0 where c0: "ParseLines P lines (new_Config P) = Inr c0" and "Finish P c0 = Inr config"
    by (auto simp: LoadConfigFile_def res_simps)
  from config_library.Finish_result [OF assms this(2)] ParseLines_server_list [OF c0]
  show "game_server config \<noteq> AddrNull" and "bind_address (listener config) \<noteq> AddrNull"
    and "server_list config = List.map_filter (named_server P) lines"
    by simp_all
next
  assume c: "ParseLines P lines (new_Config P) = Inr c"
  have "game_server c \<noteq> AddrNull \<longleftrightarrow> list_ex (is_game_server_line P) lines"
    using config_library.ParseLines_game_server [OF assms c] by simp
  with c show "LoadConfigFile P lines = Inl (ThrownText ''No game_server setting'') \<longleftrightarrow>
       \<not> list_ex (is_game_server_line P) lines"
    by (auto simp: LoadConfigFile_def Finish_def Let_def)
qed

text \<open>
  The port settings are stored in 16 bits: a number the line parser accepts is used
  modulo 65536, so that 65536 more than a port is the same setting.
\<close>

theorem port_setting_wraps:
  assumes "cl_ExpectWord P l = Inr (''port'', l1)"
    and "cl_NextPositiveInteger P l1 = Inr (n, l2)" and "cl_ExpectEnd P l2 = Inr u"
  shows "ParseLine P l c =
    Inr (c\<lparr>listener := (listener c)\<lparr>bind_address := cl_IPv4Address P (of_nat (n mod 65536))\<rparr>\<rparr>)"
proof -
  have "(of_nat n :: u16) = of_nat (n mod 65536)"
    by (simp add: of_nat_mod [symmetric] unat_of_nat word_unat_eq_iff)
  with assms show ?thesis by (simp add: ParseLine_def Let_def)
qed

text \<open>
  The command line names at most one configuration file; without one the file
  is /etc/uologin.conf.
\<close>

theorem ParseCommandLine_result:
  "ParseCommandLine argv =
    (case argv of
       [] \<Rightarrow> Inr \<lparr>config_path = ''/etc/uologin.conf''\<rparr>
     | [_] \<Rightarrow> Inr \<lparr>config_path = ''/etc/uologin.conf''\<rparr>
     | [_, path] \<Rightarrow> Inr \<lparr>config_path = path\<rparr>
     | _ \<Rightarrow> Inl (ThrownText ''Usage: uologin [CONFIGFILE]''))"
  by (auto simp: ParseCommandLine_def Let_def split: list.split)

section \<open>An instance of the line parser\<close>

text \<open>A line as its list of words, with unary number words; enough to evaluate examples.\<close>

definition ref_config_lib :: "string list config_lib" where
  "ref_config_lib =
    \<lparr>cl_RUNTIME_DIRECTORY = Some ''/run/uologin'',
     cl_LocalAddress = (\<lambda>p. AddrOther 1 (as_bytes p)),
     cl_IPv4Address = (\<lambda>port. AddrInet [0, 0, 0, 0] port),
     cl_Resolve = (\<lambda>s port. Inr (AddrInet [192, 0, 2, of_nat (length s)] (of_nat port))),
     cl_ParseSocketAddress = (\<lambda>s port. Inr (AddrInet [127, 0, 0, 1] (of_nat port))),
     cl_Fixup = (\<lambda>c. c),
     cl_ExpectWord = (\<lambda>l. case l of [] \<Rightarrow> Inl (RuntimeError ''word'' 0) | w # r \<Rightarrow> Inr (w, r)),
     cl_NextPositiveInteger =
       (\<lambda>l. case l of [] \<Rightarrow> Inl (RuntimeError ''number'' 0) | w # r \<Rightarrow> Inr (length w, r)),
     cl_NextBool = (\<lambda>l. case l of [] \<Rightarrow> Inl (RuntimeError ''bool'' 0) | w # r \<Rightarrow> Inr (w = ''yes'', r)),
     cl_ExpectEnd = (\<lambda>l. if l = [] then Inr () else Inl (RuntimeError ''end'' 0)),
     cl_ExpectValue = (\<lambda>l. case l of [] \<Rightarrow> Inl (RuntimeError ''value'' 0) | w # r \<Rightarrow> Inr (w, r)),
     cl_ExpectValueAndEnd = (\<lambda>l. case l of [w] \<Rightarrow> Inr w | _ \<Rightarrow> Inl (RuntimeError ''value'' 0)),
     cl_IsEnd = (\<lambda>l. l = [])\<rparr>"

interpretation ref_config: config_library ref_config_lib
  by unfold_locales (auto simp: ref_config_lib_def)

definition sample_lines :: "string list list" where
  "sample_lines =
    [[''port'', ''xxx''], [''game_server'', ''a:1'', ''Live''], [''game_server'', ''bb:2'', ''Test'']]"

theorem LoadConfigFile_result_witness:
  "\<exists>config. LoadConfigFile ref_config_lib sample_lines = Inr config \<and>
     map server_name (server_list config) = [''Live'', ''Test'']"
proof -
  obtain config where c: "LoadConfigFile ref_config_lib sample_lines = Inr config"
    by (simp add: LoadConfigFile_def sample_lines_def ref_config_lib_def ParseLine_def
        Finish_def new_Config_def Config_defaults_def Let_def)
  from LoadConfigFile_result [OF ref_config.config_library_axioms, of sample_lines config] c
  have "server_list config = List.map_filter (named_server ref_config_lib) sample_lines" by simp
  with c show ?thesis
    by (simp add: sample_lines_def ref_config_lib_def named_server_def map_filter_simps)
qed

theorem port_setting_wraps_witness:
  "ParseLine ref_config_lib [''port'', replicate 65539 CHR ''x''] (new_Config ref_config_lib) =
    Inr ((new_Config ref_config_lib)
      \<lparr>listener := (listener (new_Config ref_config_lib))\<lparr>bind_address := AddrInet [0, 0, 0, 0] 3\<rparr>\<rparr>)"
  using port_setting_wraps [of ref_config_lib "[''port'', replicate 65539 CHR ''x'']"
      "[replicate 65539 CHR ''x'']" 65539 "[]" "()" "new_Config ref_config_lib"]
  by (simp add: ref_config_lib_def)

end
