(* ===== verification/Instance_State.thy ===== *)
theory Instance_State
  imports Client_Accounting Pipe_Splice Credentials_Database Configuration
begin

text \<open>
  The shared state of the daemon, the class \<open>Instance\<close> of src/Instance.hxx and
  src/Instance.cxx: counters, user database and job queue, client accounting, pipe
  pool, knock listeners; and the Prometheus exporter's text.

  New objects get their identity from \<open>next_id\<close>: the address of a freshly allocated object
  differs from those of all objects that exist.  The TCP listeners with their
  connections are part of the system state that is built on this theory, since
  connections refer to the instance.
\<close>

section \<open>Counters\<close>

record Metrics =
  client_connections :: u64
  server_connections :: u64
  client_connections_accepted :: u64
  server_connections_established :: u64
  server_connections_failed :: u64
  accepted_knocks :: u64
  rejected_knocks :: u64
  malformed_knocks :: u64
  missing_knocks :: u64
  accepted_logins :: u64
  rejected_logins :: u64
  malformed_logins :: u64
  delayed_connections :: u64
  client_bytes :: u64
  server_bytes :: u64

definition new_Metrics :: Metrics where
  "new_Metrics =
    \<lparr>client_connections = 0, server_connections = 0, client_connections_accepted = 0,
     server_connections_established = 0, server_connections_failed = 0, accepted_knocks = 0,
     rejected_knocks = 0, malformed_knocks = 0, missing_knocks = 0, accepted_logins = 0,
     rejected_logins = 0, malformed_logins = 0, delayed_connections = 0, client_bytes = 0,
     server_bytes = 0\<rparr>"

section \<open>The instance\<close>

text \<open>
  Whose \<open>OnCheckCredentials\<close> a job calls: a connection's or a knock request's, with what
  the request object holds.
\<close>

datatype callback = CbConnection nat | CbKnock nat sock_address "string option"

text \<open>
  A \<open>KnockListener\<close>: the set it was constructed with, and the size of the buffers for
  datagrams, that of a login packet.
\<close>

record KnockListener =
  kl_nft_set :: "string option"
  kl_max_payload :: nat

definition new_KnockListener :: "string option \<Rightarrow> KnockListener" where
  "new_KnockListener nft_set = \<lparr>kl_nft_set = nft_set, kl_max_payload = 62\<rparr>"

record Instance =
  config :: Config
  metrics :: Metrics
  database :: Database
  jobs :: "callback job_queue"
  next_id :: nat
  client_accounting :: ClientAccountingMap
  pipe_stock :: PipeStock
  knock_listeners :: "KnockListener list"
  knock_requests :: "nat list"

definition new_Instance ::
    "Config \<Rightarrow> int \<times> nat \<Rightarrow> (string \<Rightarrow> int) \<Rightarrow> fault + (exn + Instance)" where
  "new_Instance cfg create db_open =
    bind_r (new_Database (if user_database cfg = [] then None else Some (user_database cfg))
              (auto_reload_user_database cfg) create db_open) (\<lambda>r.
    case r of
      Inl e \<Rightarrow> Inr (Inl e)
    | Inr d \<Rightarrow>
        Inr (Inr \<lparr>config = cfg, metrics = new_Metrics, database = d, jobs = [], next_id = 0,
                  client_accounting = new_ClientAccountingMap 16 True,
                  pipe_stock = \<lparr>stock_idle = []\<rparr>, knock_listeners = [], knock_requests = []\<rparr>))"

definition RequireKnock :: "Instance \<Rightarrow> bool" where
  "RequireKnock inst = (knock_listeners inst \<noteq> [])"

definition AddKnockListener :: "string option \<Rightarrow> Instance \<Rightarrow> Instance" where
  "AddKnockListener nft_set inst = inst\<lparr>knock_listeners := new_KnockListener nft_set # knock_listeners inst\<rparr>"

definition GetClientAccounting :: "lib \<Rightarrow> sock_address \<Rightarrow> Instance \<Rightarrow> u64 option \<times> Instance" where
  "GetClientAccounting L address inst =
    (let (k, m) = ClientAccountingMap_Get L address (client_accounting inst)
     in (k, inst\<lparr>client_accounting := m\<rparr>))"

section \<open>Prometheus exporter\<close>

text \<open>The template's lines, and the replacement of each \<open>{}\<close> by the next argument.\<close>

definition prometheus_template :: "string list" where
  "prometheus_template =
    ['''',
     ''# HELP uologin_client_connections Current number of connections from clients'',
     ''# TYPE uologin_client_connections gauge'',
     '''',
     ''# HELP uologin_server_connections Current number of connections to servers'',
     ''# TYPE uologin_server_connections gauge'',
     '''',
     ''# HELP uologin_client_connections_accepted Counter for connections accepted from clients'',
     ''# TYPE uologin_client_connections_accepted counter'',
     '''',
     ''# HELP uologin_server_connections_established Counter for connections established to servers'',
     ''# TYPE uologin_server_connections_established counter'',
     '''',
     ''# HELP uologin_server_connections_failed Counter for failures to connect to servers'',
     ''# TYPE uologin_server_connections_failed counter'',
     '''',
     ''# HELP uologin_accepted_knocks Counter for accepted UDP knocks'',
     ''# TYPE uologin_accepted_knocks counter'',
     '''',
     ''# HELP uologin_rejected_knocks Counter for rejected UDP knocks'',
     ''# TYPE uologin_rejected_knocks counter'',
     '''',
     ''# HELP uologin_missing_knocks Counter for TCP connections rejected due to missing UDP knock'',
     ''# TYPE uologin_missing_knocks counter'',
     '''',
     ''# HELP uologin_malformed_knocks Counter for malformed UDP knock packets'',
     ''# TYPE uologin_malformed_knocks counter'',
     '''',
     ''# HELP uologin_accepted_logins Counter for accepted logins'',
     ''# TYPE uologin_accepted_logins counter'',
     '''',
     ''# HELP uologin_rejected_logins Counter for rejected logins'',
     ''# TYPE uologin_rejected_logins counter'',
     '''',
     ''# HELP uologin_malformed_logins Counter for malformed logins'',
     ''# TYPE uologin_malformed_logins counter'',
     '''',
     ''# HELP uologin_delayed_connections Counter for delayed connections'',
     ''# TYPE uologin_delayed_connections counter'',
     '''',
     ''# HELP uologin_client_bytes Counter for bytes forwarded from clients to servers'',
     ''# TYPE uologin_client_bytes counter'',
     '''',
     ''# HELP uologin_server_bytes Counter for bytes forwarded from servers to clients'',
     ''# TYPE uologin_server_bytes counter'',
     '''',
     ''uologin_client_connections {}'',
     ''uologin_server_connections {}'',
     '''',
     ''uologin_client_connections_accepted {}'',
     ''uologin_server_connections_established {}'',
     ''uologin_server_connections_failed {}'',
     '''',
     ''uologin_accepted_knocks {}'',
     ''uologin_rejected_knocks {}'',
     ''uologin_missing_knocks {}'',
     ''uologin_malformed_knocks {}'',
     ''uologin_accepted_logins {}'',
     ''uologin_rejected_logins {}'',
     ''uologin_malformed_logins {}'',
     ''uologin_delayed_connections {}'',
     '''',
     ''uologin_client_bytes {}'',
     ''uologin_server_bytes {}'']"

fun fmt_line :: "string \<Rightarrow> string list \<Rightarrow> string \<times> string list" where
  "fmt_line [] args = ([], args)"
| "fmt_line [c] args = ([c], args)"
| "fmt_line (c # d # cs) args =
     (if c = CHR ''{'' \<and> d = CHR ''}'' \<and> args \<noteq> [] then
        let (out, rest) = fmt_line cs (tl args) in (hd args @ out, rest)
      else let (out, rest) = fmt_line (d # cs) args in (c # out, rest))"

fun fmt_lines :: "string list \<Rightarrow> string list \<Rightarrow> string list" where
  "fmt_lines [] args = []"
| "fmt_lines (l # ls) args = (let (out, rest) = fmt_line l args in out # fmt_lines ls rest)"

text \<open>The counters in the order in which they are passed to \<open>fmt::format\<close>.\<close>

definition prometheus_args :: "Metrics \<Rightarrow> u64 list" where
  "prometheus_args m =
    [client_connections m, server_connections m, client_connections_accepted m,
     server_connections_established m, server_connections_failed m,
     accepted_knocks m, rejected_knocks m, missing_knocks m, malformed_knocks m,
     accepted_logins m, rejected_logins m, malformed_logins m, delayed_connections m,
     client_bytes m, server_bytes m]"

text \<open>The lines of the answer; \<open>show\<close> is fmt's decimal notation of an integer.\<close>

definition OnPrometheusExporterRequest :: "(u64 \<Rightarrow> string) \<Rightarrow> Instance \<Rightarrow> string list" where
  "OnPrometheusExporterRequest show inst =
     fmt_lines prometheus_template (map show (prometheus_args (metrics inst)))"

section \<open>Properties\<close>

lemma fmt_line_plain: "CHR ''{'' \<notin> set l \<Longrightarrow> fmt_line l args = (l, args)"
  by (induction l args rule: fmt_line.induct) auto

lemma fmt_line_sample:
  "CHR ''{'' \<notin> set l \<Longrightarrow> fmt_line (l @ ''{}'') (a # args) = (l @ a, args)"
proof (induction l "a # args" rule: fmt_line.induct)
  case (3 c d cs)
  then show ?case by (cases "cs @ ''{}''") (auto simp: Let_def)
qed auto

lemma fmt_lines_plain:
  "list_all (\<lambda>l. CHR ''{'' \<notin> set l) ls \<Longrightarrow> fmt_lines (ls @ ms) args = ls @ fmt_lines ms args"
  by (induction ls) (auto simp: fmt_line_plain)

lemma prometheus_help_plain: "list_all (\<lambda>l. CHR ''{'' \<notin> set l) (take 46 prometheus_template)"
  by code_simp

lemma prometheus_samples:
  "drop 46 prometheus_template =
    [''uologin_client_connections '' @ ''{}'',
     ''uologin_server_connections '' @ ''{}'',
     '''',
     ''uologin_client_connections_accepted '' @ ''{}'',
     ''uologin_server_connections_established '' @ ''{}'',
     ''uologin_server_connections_failed '' @ ''{}'',
     '''',
     ''uologin_accepted_knocks '' @ ''{}'',
     ''uologin_rejected_knocks '' @ ''{}'',
     ''uologin_missing_knocks '' @ ''{}'',
     ''uologin_malformed_knocks '' @ ''{}'',
     ''uologin_accepted_logins '' @ ''{}'',
     ''uologin_rejected_logins '' @ ''{}'',
     ''uologin_malformed_logins '' @ ''{}'',
     ''uologin_delayed_connections '' @ ''{}'',
     '''',
     ''uologin_client_bytes '' @ ''{}'',
     ''uologin_server_bytes '' @ ''{}'']"
  by code_simp

lemma fmt_lines_sample:
  "CHR ''{'' \<notin> set l \<Longrightarrow> fmt_lines ((l @ ''{}'') # ls) (a # args) = (l @ a) # fmt_lines ls args"
  by (simp only: fmt_lines.simps fmt_line_sample Let_def prod.case not_False_eq_True)

lemma fmt_lines_blank: "fmt_lines ([] # ls) args = [] # fmt_lines ls args"
  by simp

lemma prometheus_names_plain:
  "CHR ''{'' \<notin> set ''uologin_client_connections ''"
  "CHR ''{'' \<notin> set ''uologin_server_connections ''"
  "CHR ''{'' \<notin> set ''uologin_client_connections_accepted ''"
  "CHR ''{'' \<notin> set ''uologin_server_connections_established ''"
  "CHR ''{'' \<notin> set ''uologin_server_connections_failed ''"
  "CHR ''{'' \<notin> set ''uologin_accepted_knocks ''"
  "CHR ''{'' \<notin> set ''uologin_rejected_knocks ''"
  "CHR ''{'' \<notin> set ''uologin_missing_knocks ''"
  "CHR ''{'' \<notin> set ''uologin_malformed_knocks ''"
  "CHR ''{'' \<notin> set ''uologin_accepted_logins ''"
  "CHR ''{'' \<notin> set ''uologin_rejected_logins ''"
  "CHR ''{'' \<notin> set ''uologin_malformed_logins ''"
  "CHR ''{'' \<notin> set ''uologin_delayed_connections ''"
  "CHR ''{'' \<notin> set ''uologin_client_bytes ''"
  "CHR ''{'' \<notin> set ''uologin_server_bytes ''"
  by simp_all

text \<open>
  C39. The exporter's answer ends with one sample line for each counter, and the
  number in the line that carries a counter's name is the value of that counter.
\<close>

theorem prometheus_reports_counters:
  "drop 46 (OnPrometheusExporterRequest show inst) =
    (let m = metrics inst in
     [''uologin_client_connections '' @ show (client_connections m),
      ''uologin_server_connections '' @ show (server_connections m),
      '''',
      ''uologin_client_connections_accepted '' @ show (client_connections_accepted m),
      ''uologin_server_connections_established '' @ show (server_connections_established m),
      ''uologin_server_connections_failed '' @ show (server_connections_failed m),
      '''',
      ''uologin_accepted_knocks '' @ show (accepted_knocks m),
      ''uologin_rejected_knocks '' @ show (rejected_knocks m),
      ''uologin_missing_knocks '' @ show (missing_knocks m),
      ''uologin_malformed_knocks '' @ show (malformed_knocks m),
      ''uologin_accepted_logins '' @ show (accepted_logins m),
      ''uologin_rejected_logins '' @ show (rejected_logins m),
      ''uologin_malformed_logins '' @ show (malformed_logins m),
      ''uologin_delayed_connections '' @ show (delayed_connections m),
      '''',
      ''uologin_client_bytes '' @ show (client_bytes m),
      ''uologin_server_bytes '' @ show (server_bytes m)])"
proof -
  let ?args = "map show (prometheus_args (metrics inst))"
  have "fmt_lines prometheus_template ?args =
      take 46 prometheus_template @ fmt_lines (drop 46 prometheus_template) ?args"
    using fmt_lines_plain [OF prometheus_help_plain, of "drop 46 prometheus_template" ?args] by simp
  moreover have "length (take 46 prometheus_template) = 46"
    by code_simp
  ultimately have "drop 46 (OnPrometheusExporterRequest show inst) =
      fmt_lines (drop 46 prometheus_template) ?args"
    by (simp add: OnPrometheusExporterRequest_def)
  then show ?thesis
    unfolding prometheus_samples prometheus_args_def list.map Let_def
    by (simp only: fmt_lines_sample fmt_lines_blank fmt_lines.simps(1) prometheus_names_plain
        not_False_eq_True)
qed

end
