(* ===== verification/Connection_Model.thy ===== *)
theory Connection_Model
  imports Instance_State
begin

text \<open>
  A client connection: src/Connection.hxx and src/Connection.cxx.

  The record \<open>Connection\<close> has the members of the class.  Every handler of the class is a
  function of the instance, the connection and the answers the handler gets from the
  system; it yields the new instance and the connection's fate, since a handler may
  \<open>delete this\<close>.  \<open>connect.Connect\<close> is always the last thing a handler does, so that
  its callbacks, also immediate ones, are events of their own.  Output to \<open>stderr\<close> is
  not modelled.
\<close>

section \<open>State\<close>

datatype State = INITIAL | CHECK_CREDENTIALS | SERVER_LIST | CONNECTING | SEND_PLAY_SERVER | READY

record Connection =
  remote_address :: sock_address
  accounting :: AccountedClientConnection
  incoming :: socket_event
  outgoing :: socket_event
  splice_in_out :: Splice
  splice_out_in :: Splice
  outgoing_address :: sock_address
  connect :: connect_socket
  timeout :: timer_event
  cancel_ptr :: "nat option"
  initial_packets :: bytes
  initial_packets_fill :: byte
  state :: State
  send_play_server :: bool

text \<open>What became of the connection; for a deleted one, as it was at the end.\<close>

datatype fate = Live Connection | Destroyed Connection

section \<open>Answers of the system\<close>

text \<open>
  \<open>ReadNoWait\<close> delivers at most as many bytes as the buffer holds; no bytes mean that
  the peer has closed.
\<close>

datatype read_result = ReadBytes bytes | ReadErr int

fun ReadNoWait :: "read_result \<Rightarrow> nat \<Rightarrow> read_result" where
  "ReadNoWait (ReadBytes bs) n = ReadBytes (take n bs)"
| "ReadNoWait (ReadErr e) n = ReadErr e"

text \<open>
  What one invocation of a handler gets: the clock; the results of its first, second,
  ... \<open>ReadNoWait\<close>; the result of its \<open>Send\<close> (no path of a handler has two); the
  pool's and the kernel's answers to the splicing calls (\<open>io_flush\<close> for the one under
  the \<open>WRITE\<close> flag, \<open>io_forward\<close> for the one after receiving); what a reload of the
  database finds.
\<close>

record io =
  io_now :: timepoint
  io_reads :: "nat \<Rightarrow> read_result"
  io_send :: int
  io_stock :: stock_answer
  io_receive :: splice_in
  io_flush :: splice_out
  io_forward :: splice_out
  io_reload :: reload_env

text \<open>\<open>splice(2)\<close> moves at most as many bytes out of the pipe as \<open>SendTo\<close> asks for.\<close>

fun splice_upto :: "splice_out \<Rightarrow> nat \<Rightarrow> splice_out" where
  "splice_upto (SpliceOut n) m = SpliceOut (min n m)"
| "splice_upto (SpliceOutErr e) m = SpliceOutErr e"

text \<open>\<open>Send\<close> transmits as many of the bytes as it returns.\<close>

definition sock_send :: "int \<Rightarrow> bytes \<Rightarrow> socket_event \<Rightarrow> socket_event" where
  "sock_send r bs s = (if r < 0 then s else SockSend (take (nat r) bs) # s)"

section \<open>Construction and destruction\<close>

text \<open>
  The constructor.  \<open>mem\<close> is the indeterminate content of the array
  \<open>initial_packets\<close>.
\<close>

definition new_Connection ::
    "lib \<Rightarrow> bytes \<Rightarrow> u64 option \<Rightarrow> int \<Rightarrow> sock_address \<Rightarrow> Instance \<Rightarrow> fault + (Instance \<times> Connection)" where
  "new_Connection L mem per_client fd address inst =
    (let acc = new_AccountedClientConnection (next_id inst);
         c = \<lparr>remote_address = address, accounting = acc, incoming = [EvCtor fd], outgoing = [],
              splice_in_out = new_Splice, splice_out_in = new_Splice,
              outgoing_address = AddrNull, connect = [], timeout = [], cancel_ptr = None,
              initial_packets = mem, initial_packets_fill = 0, state = INITIAL,
              send_play_server = False\<rparr>;
         inst = inst\<lparr>next_id := next_id inst + 1,
                     metrics := (metrics inst)
                       \<lparr>client_connections := client_connections (metrics inst) + 1,
                        client_connections_accepted := client_connections_accepted (metrics inst) + 1\<rparr>\<rparr>;
         c = c\<lparr>incoming := EvSchedule (ev_READ L OR ev_READ_HANGUP L) # incoming c,
               timeout := TmSchedule (seconds 5) # timeout c\<rparr>
     in case per_client of
          None \<Rightarrow> Inr (inst, c)
        | Some k \<Rightarrow>
            bind_r (PerClient_AddConnection k acc (client_accounting inst)) (\<lambda>(m, acc).
            Inr (inst\<lparr>client_accounting := m\<rparr>, c\<lparr>accounting := acc\<rparr>)))"

text \<open>The destructor's body, then those of the members that do something, in their order.\<close>

definition Connection_destroy ::
    "lib \<Rightarrow> timepoint \<Rightarrow> Instance \<Rightarrow> Connection \<Rightarrow> fault + (Instance \<times> Connection)" where
  "Connection_destroy L now inst c =
    bind_r (case cancel_ptr c of
              None \<Rightarrow> Inr (jobs inst)
            | Some j \<Rightarrow> job_Cancel L j (jobs inst)) (\<lambda>q.
    let inst = inst\<lparr>jobs := q\<rparr>;
        (inst, c) =
          (if ev_IsDefined L (outgoing c)
           then (inst\<lparr>metrics := (metrics inst)
                        \<lparr>server_connections := server_connections (metrics inst) - 1\<rparr>\<rparr>,
                 c\<lparr>outgoing := EvClose # outgoing c\<rparr>)
           else (inst, c));
        c = c\<lparr>incoming := EvClose # incoming c\<rparr>;
        inst = inst\<lparr>metrics := (metrics inst)
                      \<lparr>client_connections := client_connections (metrics inst) - 1\<rparr>\<rparr>;
        inst = inst\<lparr>pipe_stock := Splice_destroy (splice_in_out c)
                      (Splice_destroy (splice_out_in c) (pipe_stock inst))\<rparr>
    in bind_r (Accounted_destroy L now (accounting c) (client_accounting inst)) (\<lambda>m.
       Inr (inst\<lparr>client_accounting := m\<rparr>, c)))"

definition Destroy :: "lib \<Rightarrow> timepoint \<Rightarrow> Instance \<Rightarrow> Connection \<Rightarrow> fault + (Instance \<times> fate)" where
  "Destroy L now inst c =
    bind_r (Connection_destroy L now inst c) (\<lambda>(inst, c). Inr (inst, Destroyed c))"

text \<open>\<open>accounting.UpdateTokenBucket\<close>.\<close>

definition charge :: "lib \<Rightarrow> timepoint \<Rightarrow> rat \<Rightarrow> Instance \<Rightarrow> Connection \<Rightarrow> fault + Instance" where
  "charge L now sz inst c =
    bind_r (Accounted_UpdateTokenBucket L now sz (accounting c) (client_accounting inst)) (\<lambda>m.
    Inr (inst\<lparr>client_accounting := m\<rparr>))"

section \<open>Login\<close>

definition DoSpliceSend ::
    "splice_out \<Rightarrow> socket_event \<Rightarrow> socket_event \<Rightarrow> Splice \<Rightarrow> PipeStock
     \<Rightarrow> fault + (bool \<times> socket_event \<times> socket_event \<times> Splice \<times> PipeStock)" where
  "DoSpliceSend r from to s stock =
    bind_r (SendTo (splice_upto r (splice_size s)) s stock) (\<lambda>(res, moved, s, stock).
    let to = SockSplice moved # to in
    case res of
      SEND_OK \<Rightarrow> Inr (True, from, EvCancelOnlyWrite # to, s, stock)
    | SEND_PARTIAL \<Rightarrow> Inr (True, EvCancelOnlyRead # from, EvScheduleWrite # to, s, stock)
    | SEND_SOCKET_BLOCKING \<Rightarrow> Inr (True, EvCancelOnlyRead # from, EvScheduleWrite # to, s, stock)
    | SEND_ERROR \<Rightarrow> Inr (False, from, to, s, stock))"

definition SendAccountLoginReject :: "int \<Rightarrow> Connection \<Rightarrow> bool \<times> Connection" where
  "SendAccountLoginReject r c =
    (let packet = \<lparr>reject_cmd = Command_AccountLoginReject, reject_reason = 0x03\<rparr>
     in (r \<ge> 0, c\<lparr>incoming := sock_send r (encode_account_login_reject packet) (incoming c)\<rparr>))"

text \<open>
  \<open>if (SendAccountLoginReject()) incoming.GetSocket().ShutdownWrite(); Destroy();\<close>
  which is on three paths.
\<close>

definition reject_login :: "lib \<Rightarrow> io \<Rightarrow> Instance \<Rightarrow> Connection \<Rightarrow> fault + (Instance \<times> fate)" where
  "reject_login L io inst c =
    (let (ok, c) = SendAccountLoginReject (io_send io) c;
         c = (if ok then c\<lparr>incoming := SockShutdownWrite # incoming c\<rparr> else c)
     in Destroy L (io_now io) inst c)"

text \<open>
  One element of the server list: zeroed, then the index, the name as \<open>snprintf\<close> writes
  it into a field of 32 characters, the dummy address.
\<close>

definition server_list_element :: "nat \<times> GameServerConfig \<Rightarrow> uo_fragment_server_info" where
  "server_list_element = (\<lambda>(i, src).
    \<lparr>info_index = of_nat i,
     info_name = pad_to 32 (take 31 (ExtractString (server_name src))),
     info_full = CHR 0x00, info_timezone = 0, info_address = 0xdeadbeef\<rparr>)"

definition server_list_packet :: "GameServerConfig list \<Rightarrow> uo_packet_server_list" where
  "server_list_packet servers =
    (let sz = sizeof_server_list + (length servers - 1) * sizeof_server_info
     in \<lparr>list_cmd = Command_ServerList, list_length = of_nat sz, unknown_0x5d = 0x5d,
         num_game_servers = of_nat (length servers),
         game_servers = map server_list_element (enumerate 0 servers)\<rparr>)"

definition SendServerList :: "lib \<Rightarrow> io \<Rightarrow> Instance \<Rightarrow> Connection \<Rightarrow> fault + (Instance \<times> fate)" where
  "SendServerList L io inst c =
    bind_r (assert_r (unat (initial_packets_fill c) = 83) (AssertFailure ''Connection.cxx'' 106)) (\<lambda>_.
    let servers = server_list (config inst) in
    bind_r (assert_r (servers \<noteq> []) (AssertFailure ''Connection.cxx'' 109)) (\<lambda>_.
    let packet = server_list_packet servers;
        c = c\<lparr>incoming := sock_send (io_send io) (encode_server_list L packet) (incoming c)\<rparr>
    in if io_send io < 0 then Destroy L (io_now io) inst c
       else Inr (inst, Live (c\<lparr>state := SERVER_LIST, incoming := EvScheduleRead # incoming c,
                               timeout := TmSchedule (minutes 1) # timeout c\<rparr>))))"

definition ReceivePlayServer :: "lib \<Rightarrow> io \<Rightarrow> Instance \<Rightarrow> Connection \<Rightarrow> fault + (Instance \<times> fate)" where
  "ReceivePlayServer L io inst c =
    bind_r (assert_r (state c = SERVER_LIST) (AssertFailure ''Connection.cxx'' 145)) (\<lambda>_.
    let servers = server_list (config inst) in
    bind_r (assert_r (servers \<noteq> []) (AssertFailure ''Connection.cxx'' 146)) (\<lambda>_.
    bind_r (assert_r (unat (initial_packets_fill c) = 83) (AssertFailure ''Connection.cxx'' 147)) (\<lambda>_.
    case ReadNoWait (io_reads io 0) 3 of
      ReadErr e \<Rightarrow> Destroy L (io_now io) inst c
    | ReadBytes bs \<Rightarrow>
        let packet = decode_play_server L bs in
        if bs = [] \<or> length bs \<noteq> 3 \<or> play_cmd packet \<noteq> Command_PlayServer \<or>
           unat (play_index packet) \<ge> length servers
        then Destroy L (io_now io) inst c
        else
          let address = server_address (servers ! unat (play_index packet))
          in Inr (inst, Live
               (c\<lparr>outgoing_address := address,
                  incoming := EvCancelOnlyRead # incoming c,
                  timeout := TmCancel # timeout c,
                  state := CONNECTING,
                  send_play_server := True,
                  connect := CnConnect address (seconds 10) # connect c\<rparr>)))))"

definition OnCheckCredentials ::
    "lib \<Rightarrow> io \<Rightarrow> string \<Rightarrow> bool \<Rightarrow> Instance \<Rightarrow> Connection \<Rightarrow> fault + (Instance \<times> fate)" where
  "OnCheckCredentials L io user result inst c =
    bind_r (assert_r (state c = CHECK_CREDENTIALS) (AssertFailure ''Connection.cxx'' 236)) (\<lambda>_.
    let c = c\<lparr>cancel_ptr := None\<rparr> in
    if \<not> result then
      let inst = inst\<lparr>metrics := (metrics inst)
                   \<lparr>rejected_logins := rejected_logins (metrics inst) + 1\<rparr>\<rparr> in
      bind_r (charge L (io_now io) 5 inst c) (\<lambda>inst.
      reject_login L io inst c)
    else
      bind_r (charge L (io_now io) 1 inst c) (\<lambda>inst.
      let inst = inst\<lparr>metrics := (metrics inst)
                   \<lparr>accepted_logins := accepted_logins (metrics inst) + 1\<rparr>\<rparr> in
      if server_list (config inst) \<noteq> [] then SendServerList L io inst c
      else
        let address = game_server (config inst)
        in Inr (inst, Live
             (c\<lparr>state := CONNECTING,
                incoming := EvScheduleRead # incoming c,
                outgoing_address := address,
                connect := CnConnect address (seconds 10) # connect c\<rparr>))))"

text \<open>
  The two login packets are complete.  \<open>me\<close> is the bound method: the callback of the
  job that \<open>CheckCredentials\<close> queues.
\<close>

definition HandleLoginPackets ::
    "lib \<Rightarrow> io \<Rightarrow> Instance \<Rightarrow> Connection \<Rightarrow> fault + (Instance \<times> fate)" where
  "HandleLoginPackets L io inst c =
    (let c = c\<lparr>incoming := EvCancelOnlyRead # incoming c, timeout := TmCancel # timeout c\<rparr>;
         packets = decode_ExpectedPackets L (initial_packets c)
     in if seed_cmd (expected_seed packets) \<noteq> Command_Seed \<or>
           login_cmd (expected_login packets) \<noteq> Command_AccountLogin then
          let inst = inst\<lparr>metrics := (metrics inst)
                       \<lparr>malformed_logins := malformed_logins (metrics inst) + 1\<rparr>\<rparr> in
          bind_r (charge L (io_now io) 10 inst c) (\<lambda>inst.
          Destroy L (io_now io) inst c)
        else
          let user = ExtractString (username (credentials (expected_login packets)));
              pass = ExtractString (password (credentials (expected_login packets)))
          in if \<not> IsValidUsername L user then
               let inst = inst\<lparr>metrics := (metrics inst)
                            \<lparr>malformed_logins := malformed_logins (metrics inst) + 1\<rparr>\<rparr> in
               bind_r (charge L (io_now io) 8 inst c) (\<lambda>inst.
               reject_login L io inst c)
             else
               let c = c\<lparr>state := CHECK_CREDENTIALS\<rparr> in
               bind_r (CheckCredentials (io_reload io) (database inst)) (\<lambda>(d, act).
               let inst = inst\<lparr>database := d\<rparr> in
               case act of
                 CallbackNow result \<Rightarrow> OnCheckCredentials L io user result inst c
               | QueueJob \<Rightarrow>
                   let i = next_id inst;
                       me = CbConnection (acc_id (accounting c));
                       job = new_CheckCredentialsJob i user pass me
                   in Inr (inst\<lparr>jobs := queue_Add job (jobs inst), next_id := i + 1\<rparr>,
                           Live (c\<lparr>cancel_ptr := Some i\<rparr>))
               | CheckThrows e \<Rightarrow>
                   bind_r (charge L (io_now io) 2 inst c) (\<lambda>inst.
                   reject_login L io inst c)))"

definition ReceiveLoginPackets ::
    "lib \<Rightarrow> io \<Rightarrow> Instance \<Rightarrow> Connection \<Rightarrow> fault + (Instance \<times> fate)" where
  "ReceiveLoginPackets L io inst c =
    bind_r (assert_r (state c = INITIAL) (AssertFailure ''Connection.cxx'' 176)) (\<lambda>_.
    let off = unat (initial_packets_fill c) in
    bind_r (assert_r (off < 83) (AssertFailure ''Connection.cxx'' 177)) (\<lambda>_.
    case ReadNoWait (io_reads io 0) (83 - off) of
      ReadErr e \<Rightarrow> Destroy L (io_now io) inst c
    | ReadBytes bs \<Rightarrow>
        if bs = [] then Destroy L (io_now io) inst c
        else
          let c = c\<lparr>initial_packets := write_at off bs (initial_packets c),
                    initial_packets_fill := initial_packets_fill c + of_nat (length bs)\<rparr>
          in if unat (initial_packets_fill c) < 83 then Inr (inst, Live c)
             else HandleLoginPackets L io inst c))"

section \<open>Forwarding\<close>

text \<open>The next statement of a handler, unless it has returned after \<open>Destroy()\<close>.\<close>

definition bind_live ::
    "fault + (Instance \<times> fate) \<Rightarrow> (Instance \<Rightarrow> Connection \<Rightarrow> fault + (Instance \<times> fate))
     \<Rightarrow> fault + (Instance \<times> fate)" where
  "bind_live m f =
    bind_r m (\<lambda>(inst, x). case x of Live c \<Rightarrow> f inst c | Destroyed c \<Rightarrow> Inr (inst, Destroyed c))"

text \<open>\<open>if (!DoSpliceSend(incoming, outgoing, splice_in_out)) ...\<close>, and the other direction.\<close>

definition forward_in_out :: "lib \<Rightarrow> io \<Rightarrow> splice_out \<Rightarrow> Instance \<Rightarrow> Connection \<Rightarrow> fault + (Instance \<times> fate)" where
  "forward_in_out L io r inst c =
    bind_r (DoSpliceSend r (incoming c) (outgoing c) (splice_in_out c) (pipe_stock inst))
      (\<lambda>(ok, i, out, s, stock).
    let c = c\<lparr>incoming := i, outgoing := out, splice_in_out := s\<rparr>;
        inst = inst\<lparr>pipe_stock := stock\<rparr>
    in if \<not> ok then Destroy L (io_now io) inst c else Inr (inst, Live c))"

definition forward_out_in :: "lib \<Rightarrow> io \<Rightarrow> splice_out \<Rightarrow> Instance \<Rightarrow> Connection \<Rightarrow> fault + (Instance \<times> fate)" where
  "forward_out_in L io r inst c =
    bind_r (DoSpliceSend r (outgoing c) (incoming c) (splice_out_in c) (pipe_stock inst))
      (\<lambda>(ok, out, i, s, stock).
    let c = c\<lparr>incoming := i, outgoing := out, splice_out_in := s\<rparr>;
        inst = inst\<lparr>pipe_stock := stock\<rparr>
    in if \<not> ok then Destroy L (io_now io) inst c else Inr (inst, Live c))"

text \<open>The branches \<open>events & WRITE\<close> and \<open>events & READ\<close> of \<open>OnIncomingReady\<close>.\<close>

definition flush_incoming :: "lib \<Rightarrow> io \<Rightarrow> u32 \<Rightarrow> Instance \<Rightarrow> Connection \<Rightarrow> fault + (Instance \<times> fate)" where
  "flush_incoming L io events inst c =
    (if has_event events (ev_WRITE L) then forward_out_in L io (io_flush io) inst c
     else Inr (inst, Live c))"

definition receive_incoming :: "lib \<Rightarrow> io \<Rightarrow> Instance \<Rightarrow> Connection \<Rightarrow> fault + (Instance \<times> fate)" where
  "receive_incoming L io inst c =
    bind_r (ReceiveFrom (io_stock io) (io_receive io)
              ((splice_in_out c)\<lparr>received_bytes := 0\<rparr>) (pipe_stock inst)) (\<lambda>(res, s, stock).
    let c = c\<lparr>splice_in_out := s\<rparr>;
        inst = inst\<lparr>pipe_stock := stock\<rparr>
    in case res of
         RECEIVE_OK \<Rightarrow>
           let inst = inst\<lparr>metrics := (metrics inst)
                        \<lparr>client_bytes := client_bytes (metrics inst) + received_bytes s\<rparr>\<rparr>
           in forward_in_out L io (io_forward io) inst c
       | RECEIVE_SOCKET_BLOCKING \<Rightarrow> Inr (inst, Live c)
       | RECEIVE_SOCKET_CLOSED \<Rightarrow>
           Destroy L (io_now io) inst (c\<lparr>outgoing := SockShutdownWrite # outgoing c\<rparr>)
       | RECEIVE_PIPE_FULL \<Rightarrow>
           bind_r (assert_r (ev_IsWritePending L (outgoing c)) (AssertFailure ''Connection.cxx'' 326)) (\<lambda>_.
           Inr (inst, Live (c\<lparr>incoming := EvCancelOnlyRead # incoming c\<rparr>)))
       | RECEIVE_ERROR \<Rightarrow> Destroy L (io_now io) inst c)"

definition OnIncomingReady :: "lib \<Rightarrow> io \<Rightarrow> u32 \<Rightarrow> Instance \<Rightarrow> Connection \<Rightarrow> fault + (Instance \<times> fate)" where
  "OnIncomingReady L io events inst c =
    noexcept ''Connection.cxx'' 271
     (if has_event events (ev_DEAD_MASK L) then
        bind_r (if state c = INITIAL then charge L (io_now io) 4 inst c else Inr inst) (\<lambda>inst.
        Destroy L (io_now io) inst c)
      else
        bind_r (assert_r (\<not> connect_IsPending L (connect c)) (AssertFailure ''Connection.cxx'' 281)) (\<lambda>_.
        if state c = INITIAL then
          bind_r (assert_r (has_event events (ev_READ L)) (AssertFailure ''Connection.cxx'' 286)) (\<lambda>_.
          ReceiveLoginPackets L io inst c)
        else if state c = SERVER_LIST then
          bind_r (assert_r (has_event events (ev_READ L)) (AssertFailure ''Connection.cxx'' 290)) (\<lambda>_.
          ReceivePlayServer L io inst c)
        else
          bind_live (flush_incoming L io events inst c) (\<lambda>inst c.
          if has_event events (ev_READ L) then receive_incoming L io inst c
          else Inr (inst, Live c))))"

text \<open>
  \<open>Discard\<close>: the result, and the bytes it took from the socket.  \<open>i\<close> is the number of
  reads the handler made before.
\<close>

function Discard :: "(nat \<Rightarrow> read_result) \<Rightarrow> nat \<Rightarrow> nat \<Rightarrow> bool \<times> bytes" where
  "Discard reads i n =
    (if n = 0 then (True, [])
     else case ReadNoWait (reads i) (min 1024 n) of
            ReadErr e \<Rightarrow> (False, [])
          | ReadBytes bs \<Rightarrow>
              if bs = [] then (False, [])
              else let (ok, rest) = Discard reads (Suc i) (n - length bs) in (ok, bs @ rest))"
  by pat_completeness auto
termination
  by (relation "measure (\<lambda>(reads, i, n). n)") auto

declare Discard.simps [simp del]

definition ReceiveServerList :: "lib \<Rightarrow> io \<Rightarrow> Instance \<Rightarrow> Connection \<Rightarrow> fault + (Instance \<times> fate)" where
  "ReceiveServerList L io inst c =
    (case ReadNoWait (io_reads io 0) 1 of
       ReadErr e \<Rightarrow> Destroy L (io_now io) inst c
     | ReadBytes cmd \<Rightarrow>
    if length cmd \<noteq> 1 \<or> hd cmd \<noteq> Command_ServerList then Destroy L (io_now io) inst c
    else case ReadNoWait (io_reads io 1) 2 of
       ReadErr e \<Rightarrow> Destroy L (io_now io) inst c
     | ReadBytes len \<Rightarrow>
    if length len \<noteq> 2 \<or> unat (be16_load L len) < sizeof_server_list then Destroy L (io_now io) inst c
    else if \<not> fst (Discard (io_reads io) 2 (unat (be16_load L len) - 3))
    then Destroy L (io_now io) inst c
    else
      let play_server = \<lparr>play_cmd = Command_PlayServer, play_index = 0\<rparr>;
          c = c\<lparr>outgoing := sock_send (io_send io) (encode_play_server L play_server) (outgoing c)\<rparr>
      in if io_send io < 0 then Destroy L (io_now io) inst c
         else Inr (inst, Live (c\<lparr>incoming := EvScheduleRead # incoming c, state := READY\<rparr>)))"

text \<open>The branches \<open>events & WRITE\<close> and \<open>events & READ\<close> of \<open>OnOutgoingReady\<close>.\<close>

definition flush_outgoing :: "lib \<Rightarrow> io \<Rightarrow> u32 \<Rightarrow> Instance \<Rightarrow> Connection \<Rightarrow> fault + (Instance \<times> fate)" where
  "flush_outgoing L io events inst c =
    (if has_event events (ev_WRITE L) then forward_in_out L io (io_flush io) inst c
     else Inr (inst, Live c))"

definition receive_outgoing :: "lib \<Rightarrow> io \<Rightarrow> Instance \<Rightarrow> Connection \<Rightarrow> fault + (Instance \<times> fate)" where
  "receive_outgoing L io inst c =
    bind_r (ReceiveFrom (io_stock io) (io_receive io)
              ((splice_out_in c)\<lparr>received_bytes := 0\<rparr>) (pipe_stock inst)) (\<lambda>(res, s, stock).
    let c = c\<lparr>splice_out_in := s\<rparr>;
        inst = inst\<lparr>pipe_stock := stock\<rparr>
    in case res of
         RECEIVE_OK \<Rightarrow>
           let inst = inst\<lparr>metrics := (metrics inst)
                        \<lparr>server_bytes := server_bytes (metrics inst) + received_bytes s\<rparr>\<rparr>
           in forward_out_in L io (io_forward io) inst c
       | RECEIVE_SOCKET_BLOCKING \<Rightarrow> Inr (inst, Live c)
       | RECEIVE_SOCKET_CLOSED \<Rightarrow>
           Destroy L (io_now io) inst (c\<lparr>incoming := SockShutdownWrite # incoming c\<rparr>)
       | RECEIVE_PIPE_FULL \<Rightarrow>
           bind_r (assert_r (ev_IsWritePending L (incoming c)) (AssertFailure ''Connection.cxx'' 442)) (\<lambda>_.
           Inr (inst, Live (c\<lparr>outgoing := EvCancelOnlyRead # outgoing c\<rparr>)))
       | RECEIVE_ERROR \<Rightarrow> Destroy L (io_now io) inst c)"

definition OnOutgoingReady :: "lib \<Rightarrow> io \<Rightarrow> u32 \<Rightarrow> Instance \<Rightarrow> Connection \<Rightarrow> fault + (Instance \<times> fate)" where
  "OnOutgoingReady L io events inst c =
    noexcept ''Connection.cxx'' 393
     (bind_r (assert_r (ev_IsDefined L (incoming c)) (AssertFailure ''Connection.cxx'' 395)) (\<lambda>_.
      bind_r (assert_r (\<not> connect_IsPending L (connect c)) (AssertFailure ''Connection.cxx'' 396)) (\<lambda>_.
      if has_event events (ev_DEAD_MASK L) then
        bind_r (charge L (io_now io) 5 inst c) (\<lambda>inst.
        Destroy L (io_now io) inst c)
      else if state c = SEND_PLAY_SERVER then ReceiveServerList L io inst c
      else
        bind_r (assert_r (state c = READY) (AssertFailure ''Connection.cxx'' 409)) (\<lambda>_.
        bind_live (flush_outgoing L io events inst c) (\<lambda>inst c.
        if has_event events (ev_READ L) then receive_outgoing L io inst c
        else Inr (inst, Live c))))))"

section \<open>Timeout and connect\<close>

definition OnTimeout :: "lib \<Rightarrow> io \<Rightarrow> Instance \<Rightarrow> Connection \<Rightarrow> fault + (Instance \<times> fate)" where
  "OnTimeout L io inst c =
    (let c = c\<lparr>timeout := TmFired # timeout c\<rparr> in
     bind_r (charge L (io_now io) 7 inst c) (\<lambda>inst.
     Destroy L (io_now io) inst c))"

text \<open>The packet that tells the server the client's address, with its header; empty if disabled.\<close>

definition remote_ip_packet :: "lib \<Rightarrow> Config \<Rightarrow> sock_address \<Rightarrow> bytes" where
  "remote_ip_packet L cfg address =
    (if send_remote_ip cfg then
       let remote_ip = HostToString L address in
       if remote_ip \<noteq> [] then
         let buffer = ''REMOTE_IP='' @ remote_ip;
             header = \<lparr>ext_cmd = Command_Extended, ext_length = of_nat (5 + length buffer),
                       extended_cmd = 0x5a6a\<rparr>
         in encode_extended L header @ as_bytes buffer
       else []
     else [])"

text \<open>
  \<open>SendInitialPackets\<close>: the bytes of the vector, the result, and the bytes that were
  transmitted on the new socket.
\<close>

definition initial_vector :: "lib \<Rightarrow> Config \<Rightarrow> Connection \<Rightarrow> bytes" where
  "initial_vector L cfg c =
    (let packets = decode_ExpectedPackets L (initial_packets c)
     in encode_seed L (expected_seed packets) @
        remote_ip_packet L cfg (remote_address c) @
        encode_account_login (expected_login packets))"

definition SendInitialPackets ::
    "lib \<Rightarrow> io \<Rightarrow> Instance \<Rightarrow> Connection \<Rightarrow> fault + (bool \<times> socket_event)" where
  "SendInitialPackets L io inst c =
    bind_r (assert_r (unat (initial_packets_fill c) = 83) (AssertFailure ''Connection.cxx'' 464)) (\<lambda>_.
    Inr (io_send io > 0, sock_send (io_send io) (initial_vector L (config inst) c) []))"

text \<open>On the failure path the new socket is closed with its descriptor object.\<close>

definition OnSocketConnectSuccess ::
    "lib \<Rightarrow> io \<Rightarrow> int \<Rightarrow> Instance \<Rightarrow> Connection \<Rightarrow> fault + (Instance \<times> fate)" where
  "OnSocketConnectSuccess L io fd inst c =
    (let c = c\<lparr>connect := CnDone # connect c\<rparr> in
     bind_r (assert_r (state c = CONNECTING) (AssertFailure ''Connection.cxx'' 498)) (\<lambda>_.
     bind_r (SendInitialPackets L io inst c) (\<lambda>(ok, sent).
     if \<not> ok then Destroy L (io_now io) inst c
     else
       let inst = inst\<lparr>metrics := (metrics inst)
                    \<lparr>server_connections := server_connections (metrics inst) + 1,
                     server_connections_established :=
                       server_connections_established (metrics inst) + 1\<rparr>\<rparr>;
           c = c\<lparr>outgoing := EvScheduleRead # EvOpen fd # sent @ outgoing c\<rparr>
       in Inr (inst, Live
            (if send_play_server c then c\<lparr>state := SEND_PLAY_SERVER\<rparr>
             else c\<lparr>incoming := EvScheduleRead # incoming c, state := READY\<rparr>)))))"

definition OnSocketConnectError :: "lib \<Rightarrow> io \<Rightarrow> Instance \<Rightarrow> Connection \<Rightarrow> fault + (Instance \<times> fate)" where
  "OnSocketConnectError L io inst c =
    (let c = c\<lparr>connect := CnDone # connect c\<rparr> in
     bind_r (assert_r (state c = CONNECTING) (AssertFailure ''Connection.cxx'' 523)) (\<lambda>_.
     let inst = inst\<lparr>metrics := (metrics inst)
                  \<lparr>server_connections_failed := server_connections_failed (metrics inst) + 1\<rparr>\<rparr>
     in Destroy L (io_now io) inst c))"

section \<open>Events\<close>

text \<open>Everything that can happen to a connection, and the handler it runs.\<close>

datatype conn_event =
    IncomingReady io u32
  | OutgoingReady io u32
  | Timeout io
  | Checked io string bool
  | Connected io int
  | ConnectFailed io

fun conn_handle :: "lib \<Rightarrow> conn_event \<Rightarrow> Instance \<Rightarrow> Connection \<Rightarrow> fault + (Instance \<times> fate)" where
  "conn_handle L (IncomingReady io events) = OnIncomingReady L io events"
| "conn_handle L (OutgoingReady io events) = OnOutgoingReady L io events"
| "conn_handle L (Timeout io) = OnTimeout L io"
| "conn_handle L (Checked io user result) = OnCheckCredentials L io user result"
| "conn_handle L (Connected io fd) = OnSocketConnectSuccess L io fd"
| "conn_handle L (ConnectFailed io) = OnSocketConnectError L io"

fun is_Checked :: "conn_event \<Rightarrow> bool" where
  "is_Checked (Checked io user r) = True"
| "is_Checked _ = False"

fun event_io :: "conn_event \<Rightarrow> io" where
  "event_io (IncomingReady io _) = io"
| "event_io (OutgoingReady io _) = io"
| "event_io (Timeout io) = io"
| "event_io (Checked io _ _) = io"
| "event_io (Connected io _) = io"
| "event_io (ConnectFailed io) = io"

text \<open>
  When the event loop delivers what: only flags that are scheduled or indicate a dead
  connection (among the latter is the hangup of the peer, which the constructor schedules), at least one; a timer that is pending; the end of a pending connect; the
  result of a check that was not cancelled.
\<close>

definition flags_ok :: "lib \<Rightarrow> socket_event \<Rightarrow> u32 \<Rightarrow> bool" where
  "flags_ok L s events \<longleftrightarrow>
     ev_IsDefined L s \<and>
     (has_event events (ev_READ L) \<longrightarrow> ev_IsReadPending L s) \<and>
     (has_event events (ev_WRITE L) \<longrightarrow> ev_IsWritePending L s) \<and>
     (has_event events (ev_READ L) \<or> has_event events (ev_WRITE L) \<or> has_event events (ev_DEAD_MASK L))"

fun deliverable :: "lib \<Rightarrow> conn_event \<Rightarrow> Connection \<Rightarrow> bool" where
  "deliverable L (IncomingReady io events) c = flags_ok L (incoming c) events"
| "deliverable L (OutgoingReady io events) c = flags_ok L (outgoing c) events"
| "deliverable L (Timeout io) c = timer_IsPending L (timeout c)"
| "deliverable L (Checked io user result) c = (cancel_ptr c \<noteq> None)"
| "deliverable L (Connected io fd) c = connect_IsPending L (connect c)"
| "deliverable L (ConnectFailed io) c = connect_IsPending L (connect c)"

text \<open>
  The pool hands out pipes it has, at the time it is asked.
\<close>

definition pool_ok :: "io \<Rightarrow> fault + (Instance \<times> fate) \<Rightarrow> bool" where
  "pool_ok io m \<longleftrightarrow>
     (\<forall>inst c. m = Inr (inst, Live c) \<longrightarrow> stock_answer_ok (io_stock io) (pipe_stock inst))"

fun io_ok :: "lib \<Rightarrow> conn_event \<Rightarrow> Instance \<Rightarrow> Connection \<Rightarrow> bool" where
  "io_ok L (IncomingReady io events) inst c = pool_ok io (flush_incoming L io events inst c)"
| "io_ok L (OutgoingReady io events) inst c = pool_ok io (flush_outgoing L io events inst c)"
| "io_ok L _ inst c = True"

end
