(* ===== verification/Listener_Model.thy ===== *)
theory Listener_Model
  imports Connection_Model
begin

text \<open>
  Accepting connections: src/Listener.hxx, src/Listener.cxx, src/DelayedConnection.hxx
  and src/DelayedConnection.cxx.  A listener owns its connections and its delayed
  connections.  Output to \<open>stderr\<close> is not modelled.
\<close>

section \<open>Delayed connections\<close>

record DelayedConnection =
  dc_peer_address :: sock_address
  dc_accounting :: AccountedClientConnection
  dc_timer :: timer_event
  dc_socket :: socket_event

text \<open>The descriptor a \<open>SocketEvent\<close> was given last.\<close>

fun ev_fd :: "socket_event \<Rightarrow> int" where
  "ev_fd [] = -1"
| "ev_fd (EvCtor fd # h) = fd"
| "ev_fd (EvOpen fd # h) = fd"
| "ev_fd (_ # h) = ev_fd h"

definition new_DelayedConnection ::
    "lib \<Rightarrow> u64 \<Rightarrow> duration \<Rightarrow> int \<Rightarrow> sock_address \<Rightarrow> Instance \<Rightarrow> fault + (Instance \<times> DelayedConnection)" where
  "new_DelayedConnection L per_client delay fd address inst =
    (let acc = new_AccountedClientConnection (next_id inst);
         inst = inst\<lparr>next_id := next_id inst + 1\<rparr>
     in bind_r (PerClient_AddConnection per_client acc (client_accounting inst)) (\<lambda>(m, acc).
        Inr (inst\<lparr>client_accounting := m\<rparr>,
             \<lparr>dc_peer_address = address, dc_accounting = acc, dc_timer = [TmSchedule delay],
              dc_socket = [EvSchedule (ev_READ_HANGUP L), EvCtor fd]\<rparr>)))"

text \<open>The destructor: \<open>socket.Close()\<close>, then the one of \<open>accounting\<close>.\<close>

definition DelayedConnection_destroy ::
    "lib \<Rightarrow> timepoint \<Rightarrow> Instance \<Rightarrow> DelayedConnection \<Rightarrow> fault + (Instance \<times> DelayedConnection)" where
  "DelayedConnection_destroy L now inst d =
    (let d = d\<lparr>dc_socket := EvClose # dc_socket d\<rparr> in
     bind_r (Accounted_destroy L now (dc_accounting d) (client_accounting inst)) (\<lambda>m.
     Inr (inst\<lparr>client_accounting := m\<rparr>, d)))"

section \<open>Listener\<close>

record Listener =
  connections :: "Connection list"
  delayed :: "DelayedConnection list"

definition new_Listener :: Listener where
  "new_Listener = \<lparr>connections = [], delayed = []\<rparr>"

definition Listener_AddConnection ::
    "lib \<Rightarrow> bytes \<Rightarrow> u64 option \<Rightarrow> int \<Rightarrow> sock_address \<Rightarrow> Instance \<Rightarrow> Listener \<Rightarrow> fault + (Instance \<times> Listener)" where
  "Listener_AddConnection L mem per_client fd address inst l =
    bind_r (new_Connection L mem per_client fd address inst) (\<lambda>(inst, c).
    Inr (inst, l\<lparr>connections := c # connections l\<rparr>))"

definition OnAccept ::
    "lib \<Rightarrow> timepoint \<Rightarrow> bytes \<Rightarrow> int \<Rightarrow> sock_address \<Rightarrow> Instance \<Rightarrow> Listener \<Rightarrow> fault + (Instance \<times> Listener)" where
  "OnAccept L now mem fd address inst l =
    (let (per_client, inst) = GetClientAccounting L address inst in
     case per_client of
       None \<Rightarrow> Listener_AddConnection L mem None fd address inst l
     | Some k \<Rightarrow>
         bind_r (Map_UpdateTokenBucket L now 1 k (client_accounting inst)) (\<lambda>m.
         let inst = inst\<lparr>client_accounting := m\<rparr> in
         case find_entry k m of
           None \<Rightarrow> Inl (UseAfterFree ''Listener.cxx'' 42)
         | Some pc \<Rightarrow>
             if RequireKnock inst \<and> \<not> pc_knocked pc then
               Inr (inst\<lparr>metrics := (metrics inst)
                      \<lparr>missing_knocks := missing_knocks (metrics inst) + 1\<rparr>\<rparr>, l)
             else if \<not> PerClient_Check pc m then Inr (inst, l)
             else if pc_delay pc > 0 then
               let inst = inst\<lparr>metrics := (metrics inst)
                            \<lparr>delayed_connections := delayed_connections (metrics inst) + 1\<rparr>\<rparr> in
               bind_r (new_DelayedConnection L k (pc_delay pc) fd address inst) (\<lambda>(inst, d).
               Inr (inst, l\<lparr>delayed := delayed l @ [d]\<rparr>))
             else Listener_AddConnection L mem (Some k) fd address inst l))"

text \<open>The four outcomes for a client with a key.\<close>

lemma OnAccept_cases:
  assumes "GetClientAccounting L address inst = (Some k, i)"
    and "Map_UpdateTokenBucket L now 1 k (client_accounting i) = Inr m" and "find_entry k m = Some pc"
  obtains (not_knocked) "RequireKnock i" "\<not> pc_knocked pc"
      "OnAccept L now mem fd address inst l = Inr (i\<lparr>client_accounting := m, metrics := (metrics i)
         \<lparr>missing_knocks := missing_knocks (metrics i) + 1\<rparr>\<rparr>, l)"
  | (too_many) "\<not> RequireKnock i \<or> pc_knocked pc" "\<not> PerClient_Check pc m"
      "OnAccept L now mem fd address inst l = Inr (i\<lparr>client_accounting := m\<rparr>, l)"
  | (tarpit) "\<not> RequireKnock i \<or> pc_knocked pc" "PerClient_Check pc m" "pc_delay pc > 0"
      "OnAccept L now mem fd address inst l =
         bind_r (new_DelayedConnection L k (pc_delay pc) fd address (i\<lparr>client_accounting := m, metrics := (metrics i)
            \<lparr>delayed_connections := delayed_connections (metrics i) + 1\<rparr>\<rparr>)) (\<lambda>(inst, d).
         Inr (inst, l\<lparr>delayed := delayed l @ [d]\<rparr>))"
  | (admit) "\<not> RequireKnock i \<or> pc_knocked pc" "PerClient_Check pc m" "\<not> pc_delay pc > 0"
      "OnAccept L now mem fd address inst l =
         Listener_AddConnection L mem (Some k) fd address (i\<lparr>client_accounting := m\<rparr>) l"
proof -
  have eq: "OnAccept L now mem fd address inst l =
      (if RequireKnock i \<and> \<not> pc_knocked pc
       then Inr (i\<lparr>client_accounting := m, metrics := (metrics i)\<lparr>missing_knocks := missing_knocks (metrics i) + 1\<rparr>\<rparr>, l)
       else if \<not> PerClient_Check pc m then Inr (i\<lparr>client_accounting := m\<rparr>, l)
       else if pc_delay pc > 0 then
         bind_r (new_DelayedConnection L k (pc_delay pc) fd address (i\<lparr>client_accounting := m, metrics := (metrics i)
            \<lparr>delayed_connections := delayed_connections (metrics i) + 1\<rparr>\<rparr>)) (\<lambda>(inst, d).
         Inr (inst, l\<lparr>delayed := delayed l @ [d]\<rparr>))
       else Listener_AddConnection L mem (Some k) fd address (i\<lparr>client_accounting := m\<rparr>) l)"
    using assms by (simp add: OnAccept_def RequireKnock_def Let_def)
  consider "RequireKnock i \<and> \<not> pc_knocked pc"
    | "\<not> (RequireKnock i \<and> \<not> pc_knocked pc)" "\<not> PerClient_Check pc m"
    | "\<not> (RequireKnock i \<and> \<not> pc_knocked pc)" "PerClient_Check pc m" "pc_delay pc > 0"
    | "\<not> (RequireKnock i \<and> \<not> pc_knocked pc)" "PerClient_Check pc m" "\<not> pc_delay pc > 0" by blast
  then show thesis
  proof cases
    case 1
    then show thesis by (intro not_knocked) (simp_all add: eq)
  next
    case 2
    then show thesis by (intro too_many) (auto simp: eq)
  next
    case 3
    then show thesis by (intro tarpit) (auto simp: eq)
  next
    case 4
    then show thesis by (intro admit) (auto simp: eq)
  qed
qed

text \<open>
  \<open>DelayedConnection::OnTimer\<close> and \<open>OnSocketReady\<close>, on an element of the listener's list,
  which leaves the list when it is deleted.  \<open>others\<close> are the elements before and behind it.
\<close>

definition Delayed_OnTimer ::
    "lib \<Rightarrow> timepoint \<Rightarrow> bytes \<Rightarrow> Instance \<Rightarrow> Listener \<Rightarrow> DelayedConnection \<Rightarrow> DelayedConnection list
     \<Rightarrow> fault + (Instance \<times> Listener)" where
  "Delayed_OnTimer L now mem inst l d others =
    (let d = d\<lparr>dc_timer := TmFired # dc_timer d\<rparr>;
         fd = ev_fd (dc_socket d);
         d = d\<lparr>dc_socket := EvReleaseSocket # dc_socket d\<rparr>
     in bind_r (Listener_AddConnection L mem (acc_per_client (dc_accounting d)) fd
                  (dc_peer_address d) inst l) (\<lambda>(inst, l).
        bind_r (DelayedConnection_destroy L now inst d) (\<lambda>(inst, d).
        Inr (inst, l\<lparr>delayed := others\<rparr>))))"

definition Delayed_OnSocketReady ::
    "lib \<Rightarrow> timepoint \<Rightarrow> Instance \<Rightarrow> Listener \<Rightarrow> DelayedConnection \<Rightarrow> DelayedConnection list
     \<Rightarrow> fault + (Instance \<times> Listener)" where
  "Delayed_OnSocketReady L now inst l d others =
    bind_r (Accounted_UpdateTokenBucket L now 4 (dc_accounting d) (client_accounting inst)) (\<lambda>m.
    bind_r (DelayedConnection_destroy L now (inst\<lparr>client_accounting := m\<rparr>) d) (\<lambda>(inst, d).
    Inr (inst, l\<lparr>delayed := others\<rparr>)))"

text \<open>The destructor of a listener: \<open>clear_and_dispose\<close> of both lists.\<close>

fun dispose_delayed ::
    "lib \<Rightarrow> timepoint \<Rightarrow> DelayedConnection list \<Rightarrow> Instance \<Rightarrow> fault + Instance" where
  "dispose_delayed L now [] inst = Inr inst"
| "dispose_delayed L now (d # ds) inst =
     bind_r (DelayedConnection_destroy L now inst d) (\<lambda>(inst, d). dispose_delayed L now ds inst)"

fun dispose_connections ::
    "lib \<Rightarrow> timepoint \<Rightarrow> Connection list \<Rightarrow> Instance \<Rightarrow> fault + Instance" where
  "dispose_connections L now [] inst = Inr inst"
| "dispose_connections L now (c # cs) inst =
     bind_r (Connection_destroy L now inst c) (\<lambda>(inst, c). dispose_connections L now cs inst)"

definition Listener_destroy :: "lib \<Rightarrow> timepoint \<Rightarrow> Instance \<Rightarrow> Listener \<Rightarrow> fault + Instance" where
  "Listener_destroy L now inst l =
    bind_r (dispose_delayed L now (delayed l) inst) (\<lambda>inst.
    dispose_connections L now (connections l) inst)"

end
