(* ===== verification/Nft.thy ===== *)
theory Nft
  imports Libraries
begin

text \<open>
  Adding an address to an nftables set: src/Nftables.hxx and src/Nftables.cxx.  The
  operation starts \<open>/usr/sbin/nft\<close> and waits for it.  The result of
  \<open>posix_spawn\<close> and the successive results of \<open>waitpid\<close> are arguments;
  \<open>None\<close> is the outcome of a call that is still waiting when the given results are used up.
\<close>

datatype wait_status = WExited nat | WSignaled nat | WOther

definition nft_argv :: "string \<Rightarrow> string \<Rightarrow> string \<Rightarrow> string \<Rightarrow> string list" where
  "nft_argv family table st address =
    [''nft'', ''add'', ''element'', family, table, st, ''{'', address, ''}'']"

fun nft_wait :: "(int + wait_status) list \<Rightarrow> exn option option" where
  "nft_wait [] = None"
| "nft_wait (Inl e # ws) = Some (Some (ErrnoError ''waitpid() failed'' e))"
| "nft_wait (Inr (WSignaled s) # ws) = Some (Some (RuntimeError ''`nft` died from signal'' (int s)))"
| "nft_wait (Inr (WExited c) # ws) =
     Some (if c \<noteq> 0 then Some (RuntimeError ''`nft` exited with status'' (int c)) else None)"
| "nft_wait (Inr WOther # ws) = nft_wait ws"

text \<open>
  The command that is started and the outcome: \<open>Some None\<close> is a normal return, \<open>Some (Some e)\<close>
  a throw.  \<open>errno\<close> is what \<open>MakeErrno\<close> reads after a failed \<open>posix_spawn\<close>.
\<close>

definition NftAddElement ::
    "string \<Rightarrow> string \<Rightarrow> string \<Rightarrow> string \<Rightarrow> int \<Rightarrow> int \<Rightarrow> (int + wait_status) list
     \<Rightarrow> string list \<times> exn option option" where
  "NftAddElement family table st address spawn_ret errno waits =
    (nft_argv family table st address,
     if spawn_ret \<noteq> 0 then Some (Some (ErrnoError ''Failed to execute `nft`'' errno))
     else nft_wait waits)"

lemma nft_wait_skip: "nft_wait (replicate n (Inr WOther) @ ws) = nft_wait ws"
  by (induction n) auto

text \<open>
  \<open>posix_spawn\<close> returns its error number, but the exception that is thrown after a failure carries
  \<open>errno\<close>, whatever the number was.
\<close>

theorem spawn_error_ignored:
  assumes "spawn_ret \<noteq> 0"
  shows "snd (NftAddElement family table st address spawn_ret errno waits) =
    Some (Some (ErrnoError ''Failed to execute `nft`'' errno))"
  using assms by (simp add: NftAddElement_def)

text \<open>
  C38. The operation returns normally exactly if the command could be started and
  \<open>waitpid\<close> eventually reported, after only status changes that are no end of the
  process, an exit with status 0; and it returns or throws as soon as \<open>waitpid\<close> fails or
  reports the end of the process.
\<close>

theorem NftAddElement_success:
  "(snd (NftAddElement family table st address spawn_ret errno waits) = Some None \<longleftrightarrow>
     spawn_ret = 0 \<and> (\<exists>n ws. waits = replicate n (Inr WOther) @ Inr (WExited 0) # ws)) \<and>
   (snd (NftAddElement family table st address spawn_ret errno waits) = None \<longleftrightarrow>
     spawn_ret = 0 \<and> (\<forall>w \<in> set waits. w = Inr WOther))"
proof -
  have ok: "nft_wait waits = Some None \<longleftrightarrow>
      (\<exists>n ws. waits = replicate n (Inr WOther) @ Inr (WExited 0) # ws)"
  proof
    show "nft_wait waits = Some None \<Longrightarrow>
      \<exists>n ws. waits = replicate n (Inr WOther) @ Inr (WExited 0) # ws"
    proof (induction waits rule: nft_wait.induct)
      case (4 c ws)
      then show ?case by (intro exI [of _ 0]) (simp split: if_splits)
    next
      case (5 ws)
      then obtain n ws' where "ws = replicate n (Inr WOther) @ Inr (WExited 0) # ws'" by auto
      then show ?case by (intro exI [of _ "Suc n"]) simp
    qed auto
  next
    show "\<exists>n ws. waits = replicate n (Inr WOther) @ Inr (WExited 0) # ws \<Longrightarrow>
      nft_wait waits = Some None"
      by (auto simp: nft_wait_skip)
  qed
  have "nft_wait waits = None \<longleftrightarrow> (\<forall>w \<in> set waits. w = Inr WOther)"
    by (induction waits rule: nft_wait.induct) auto
  with ok show ?thesis by (simp add: NftAddElement_def)
qed

theorem NftAddElement_success_witness:
  "snd (NftAddElement ''inet'' ''filter'' ''knocked'' ''192.0.2.1'' 0 0
     [Inr WOther, Inr (WExited 0)]) = Some None \<and>
   snd (NftAddElement ''inet'' ''filter'' ''knocked'' ''192.0.2.1'' 0 0 [Inr WOther]) = None"
proof -
  have "\<exists>n ws. [Inr WOther, Inr (WExited 0)] =
      replicate n (Inr WOther :: int + wait_status) @ Inr (WExited 0) # ws"
    by (intro exI [of _ 1] exI [of _ "[]"]) simp
  with NftAddElement_success [of "''inet''" "''filter''" "''knocked''" "''192.0.2.1''" 0 0
      "[Inr WOther, Inr (WExited 0)]"]
    NftAddElement_success [of "''inet''" "''filter''" "''knocked''" "''192.0.2.1''" 0 0 "[Inr WOther]"]
  show ?thesis by simp
qed

end
