(* ===== verification/Knock_Model.thy ===== *)
theory Knock_Model
  imports Instance_State Nft
begin

text \<open>
  UDP knocking: src/KnockListener.hxx and src/KnockListener.cxx.

  A \<open>Request\<close> object has an identity; its members \<open>address\<close> and \<open>nft_set\<close> are part of the
  callback \<open>CbKnock\<close> of the job it waits for.  The instance keeps the identities of the
  objects that exist.  Output to \<open>stderr\<close> is not modelled.
\<close>

text \<open>What the system answers to the starting of \<open>nft\<close>.\<close>

record nft_env =
  nft_spawn :: int
  nft_errno :: int
  nft_waits :: "(int + wait_status) list"

type_synonym nft_call = "string list \<times> exn option option"

definition delete_request :: "nat \<Rightarrow> Instance \<Rightarrow> Instance" where
  "delete_request i inst = inst\<lparr>knock_requests := remove1 i (knock_requests inst)\<rparr>"

text \<open>
  \<open>Request::OnCheckCredentials\<close>.  The \<open>nft\<close> command it ran, with its outcome, is part of the result
  (an exception is caught); the instance is the one after that command has ended.
\<close>

definition Request_OnCheckCredentials ::
    "lib \<Rightarrow> timepoint \<Rightarrow> nft_env \<Rightarrow> nat \<Rightarrow> sock_address \<Rightarrow> string option \<Rightarrow> string \<Rightarrow> bool \<Rightarrow> Instance
     \<Rightarrow> fault + (Instance \<times> nft_call option)" where
  "Request_OnCheckCredentials L now env this address nft_set user result inst =
    (let (per_client, inst) = GetClientAccounting L address inst in
     case per_client of
       None \<Rightarrow> Inr (inst, None)
     | Some k \<Rightarrow>
         if \<not> result then
           bind_r (Map_UpdateTokenBucket L now 5 k (client_accounting inst)) (\<lambda>m.
           let inst = inst\<lparr>client_accounting := m,
                           metrics := (metrics inst)
                             \<lparr>rejected_knocks := rejected_knocks (metrics inst) + 1\<rparr>\<rparr>
           in Inr (delete_request this inst, None))
         else
           let inst = inst\<lparr>metrics := (metrics inst)
                        \<lparr>accepted_knocks := accepted_knocks (metrics inst) + 1\<rparr>\<rparr> in
           bind_r (Map_SetKnocked k (client_accounting inst)) (\<lambda>m.
           let inst = inst\<lparr>client_accounting := m\<rparr>;
               call = (case nft_set of
                         None \<Rightarrow> None
                       | Some s \<Rightarrow>
                           let ip = HostToString L address in
                           if ip \<noteq> []
                           then Some (NftAddElement ''inet'' ''filter'' s ip
                                        (nft_spawn env) (nft_errno env) (nft_waits env))
                           else None)
           in Inr (delete_request this inst, call)))"

text \<open>The constructor, which is \<open>noexcept\<close>.\<close>

definition new_Request ::
    "lib \<Rightarrow> timepoint \<Rightarrow> reload_env \<Rightarrow> nft_env \<Rightarrow> string option \<Rightarrow> string \<Rightarrow> string \<Rightarrow> sock_address \<Rightarrow> Instance
     \<Rightarrow> fault + (Instance \<times> nft_call option)" where
  "new_Request L now reload env nft_set user pass address inst =
    (let this = next_id inst;
         inst = inst\<lparr>next_id := this + 1, knock_requests := this # knock_requests inst\<rparr>
     in noexcept ''KnockListener.cxx'' 43
      (bind_r (CheckCredentials reload (database inst)) (\<lambda>(d, act).
       let inst = inst\<lparr>database := d\<rparr> in
       case act of
         CheckThrows e \<Rightarrow> Inl (Thrown e)
       | CallbackNow result \<Rightarrow>
           Request_OnCheckCredentials L now env this address nft_set user result inst
       | QueueJob \<Rightarrow>
           let i = next_id inst;
               job = new_CheckCredentialsJob i user pass (CbKnock this address nft_set)
           in Inr (inst\<lparr>jobs := queue_Add job (jobs inst), next_id := i + 1\<rparr>, None))))"

definition OnUdpDatagram ::
    "lib \<Rightarrow> timepoint \<Rightarrow> reload_env \<Rightarrow> nft_env \<Rightarrow> KnockListener \<Rightarrow> bytes \<Rightarrow> sock_address \<Rightarrow> Instance
     \<Rightarrow> fault + (Instance \<times> nft_call option)" where
  "OnUdpDatagram L now reload env this payload address inst =
    (let (per_client, inst) = GetClientAccounting L address inst in
     case per_client of
       None \<Rightarrow> Inr (inst, None)
     | Some k \<Rightarrow>
         let packet = decode_account_login payload in
         if length payload \<noteq> 62 \<or> login_cmd packet \<noteq> Command_AccountLogin then
           bind_r (Map_UpdateTokenBucket L now 10 k (client_accounting inst)) (\<lambda>m.
           Inr (inst\<lparr>client_accounting := m,
                     metrics := (metrics inst)
                       \<lparr>malformed_knocks := malformed_knocks (metrics inst) + 1\<rparr>\<rparr>, None))
         else
           let user = ExtractString (username (credentials packet));
               pass = ExtractString (password (credentials packet))
           in if \<not> IsValidUsername L user then
                bind_r (Map_UpdateTokenBucket L now 8 k (client_accounting inst)) (\<lambda>m.
                Inr (inst\<lparr>client_accounting := m,
                          metrics := (metrics inst)
                            \<lparr>malformed_knocks := malformed_knocks (metrics inst) + 1\<rparr>\<rparr>, None))
              else new_Request L now reload env (kl_nft_set this) user pass address inst)"

end
