(* ===== verification/System_Model.thy ===== *)
theory System_Model
  imports Listener_Model Knock_Model
begin

text \<open>
  The whole daemon as a state machine: the set-up of src/Main.cxx, the events the event
  loop and the worker threads can run, and the shutdown and destruction of
  src/Instance.cxx.

  \<open>sys_do\<close> relates a state and an event to the result of running the event's handler, a
  new state or a fault.  Its guards say when the event loop runs a handler: an
  object's handler runs only while the object exists and its event source is
  pending.  \<open>G\<close> is the content of the database files, by handle.
\<close>

record System =
  sys_inst :: Instance
  sys_listeners :: "Listener list"
  sys_exporter :: bool
  sys_down :: bool

section \<open>Start\<close>

text \<open>
  \<open>AddPrometheusExporter\<close> and \<open>AddListener\<close> of src/Instance.cxx; \<open>sys_exporter\<close> tells whether there is an
  exporter.
\<close>

definition AddPrometheusExporter :: "System \<Rightarrow> fault + System" where
  "AddPrometheusExporter s =
    bind_r (assert_r (\<not> sys_exporter s) (AssertFailure ''Instance.cxx'' 35)) (\<lambda>_.
    Inr (s\<lparr>sys_exporter := True\<rparr>))"

definition AddListener :: "System \<Rightarrow> System" where
  "AddListener s = s\<lparr>sys_listeners := new_Listener # sys_listeners s\<rparr>"

text \<open>\<open>SocketConfig::Create\<close> throws if the socket cannot be created or bound.\<close>

record sockets =
  so_exporter :: "exn option"
  so_listener :: "exn option"
  so_knock :: "exn option"

fun create_socket :: "exn option \<Rightarrow> fault + unit" where
  "create_socket None = Inr ()"
| "create_socket (Some e) = Inl (Thrown e)"

text \<open>\<open>Run\<close> of src/Main.cxx up to the event loop: after the instance was constructed, and as a whole.\<close>

definition Run_setup :: "Config \<Rightarrow> sockets \<Rightarrow> Instance \<Rightarrow> fault + System" where
  "Run_setup cfg socks inst =
    (let s = \<lparr>sys_inst = inst, sys_listeners = [], sys_exporter = False, sys_down = False\<rparr> in
     bind_r (if bind_address (prometheus_exporter cfg) \<noteq> AddrNull
             then bind_r (create_socket (so_exporter socks)) (\<lambda>_. AddPrometheusExporter s)
             else Inr s) (\<lambda>s.
     bind_r (create_socket (so_listener socks)) (\<lambda>_.
     let s = AddListener s in
     if bind_address (knock_listener cfg) \<noteq> AddrNull
     then bind_r (create_socket (so_knock socks)) (\<lambda>_.
          Inr (s\<lparr>sys_inst := AddKnockListener
                   (if knock_nft_set cfg = [] then None else Some (knock_nft_set cfg)) (sys_inst s)\<rparr>))
     else Inr s)))"

definition Run :: "Config \<Rightarrow> int \<times> nat \<Rightarrow> (string \<Rightarrow> int) \<Rightarrow> sockets \<Rightarrow> fault + System" where
  "Run cfg create db_open socks =
    bind_r (new_Instance cfg create db_open) (\<lambda>r.
    case r of Inl e \<Rightarrow> Inl (Thrown e) | Inr inst \<Rightarrow> Run_setup cfg socks inst)"

text \<open>
  \<open>main\<close>: \<open>Inr (Inl 1)\<close> is the result \<open>EXIT_FAILURE\<close>, \<open>Inr (Inr s)\<close> a daemon that enters its event
  loop in state \<open>s\<close>.  \<open>P\<close> are the library functions for parsing, \<open>file\<close> yields the lines of a file or
  the exception of opening it.
\<close>

definition main ::
    "'l config_lib \<Rightarrow> (string \<Rightarrow> exn + 'l list) \<Rightarrow> string list \<Rightarrow> int \<times> nat \<Rightarrow> (string \<Rightarrow> int) \<Rightarrow> sockets
     \<Rightarrow> fault + (nat + System)" where
  "main P file argv create db_open socks =
    (case bind_r (ParseCommandLine argv) (\<lambda>cmdline.
          bind_r (file (config_path cmdline)) (\<lambda>lines.
          LoadConfigFile P lines)) of
       Inl e \<Rightarrow> Inr (Inl 1)
     | Inr cfg \<Rightarrow>
         (case Run cfg create db_open socks of
            Inl (Thrown e) \<Rightarrow> Inr (Inl 1)
          | Inl f \<Rightarrow> Inl f
          | Inr s \<Rightarrow> Inr (Inr s)))"

definition sys_init :: "System \<Rightarrow> bool" where
  "sys_init s \<longleftrightarrow> (\<exists>cfg create db_open socks. Run cfg create db_open socks = Inr s)"

section \<open>Shutdown\<close>

fun destroy_listeners :: "lib \<Rightarrow> timepoint \<Rightarrow> Listener list \<Rightarrow> Instance \<Rightarrow> fault + Instance" where
  "destroy_listeners L now [] inst = Inr inst"
| "destroy_listeners L now (l # ls) inst =
     bind_r (Listener_destroy L now inst l) (\<lambda>inst. destroy_listeners L now ls inst)"

definition OnShutdown :: "lib \<Rightarrow> timepoint \<Rightarrow> System \<Rightarrow> fault + System" where
  "OnShutdown L now s =
    (let inst = (sys_inst s)\<lparr>knock_listeners := []\<rparr> in
     bind_r (destroy_listeners L now (sys_listeners s) inst) (\<lambda>inst.
     let inst = inst\<lparr>client_accounting := ClientAccountingMap_Shutdown (client_accounting inst)\<rparr>
     in Inr (s\<lparr>sys_inst := inst, sys_listeners := [], sys_exporter := False, sys_down := True\<rparr>)))"

text \<open>
  \<open>~Instance\<close> with assertions enabled: its body, then the destructors of the members in the reverse
  order of their declaration.
\<close>

definition Instance_destroy :: "lib \<Rightarrow> timepoint \<Rightarrow> System \<Rightarrow> fault + Instance" where
  "Instance_destroy L now s =
    bind_r (destroy_listeners L now (sys_listeners s) (sys_inst s)) (\<lambda>inst.
    bind_r (assert_r (client_connections (metrics inst) = 0) (AssertFailure ''Instance.cxx'' 27)) (\<lambda>_.
    bind_r (assert_r (server_connections (metrics inst) = 0) (AssertFailure ''Instance.cxx'' 28)) (\<lambda>_.
    let inst = inst\<lparr>knock_listeners := [],
                    client_accounting := ClientAccountingMap_destroy (client_accounting inst)\<rparr> in
    bind_r (Database_destroy (database inst)) (\<lambda>d.
    Inr (inst\<lparr>database := d, pipe_stock := \<lparr>stock_idle = []\<rparr>\<rparr>)))))"

section \<open>Events\<close>

datatype sys_event =
    SysAccept timepoint bytes int sock_address
  | SysConn conn_event
  | SysDelayedTimer timepoint bytes
  | SysDelayedHangup timepoint
  | SysCleanup timepoint
  | SysDatagram timepoint reload_env nft_env KnockListener bytes sock_address
  | SysJobTake nat
  | SysJobEnter nat
  | SysJobRun nat
  | SysJobDone nat io nft_env
  | SysShutdown timepoint

text \<open>
  The result of a handler of a listener, or of one of its connections, put back in place.
\<close>

definition put_listener ::
    "System \<Rightarrow> Listener list \<Rightarrow> Listener list \<Rightarrow> fault + (Instance \<times> Listener) \<Rightarrow> fault + System" where
  "put_listener s ls1 ls2 r =
    bind_r r (\<lambda>(inst, l). Inr (s\<lparr>sys_inst := inst, sys_listeners := ls1 @ l # ls2\<rparr>))"

definition survivors :: "fate \<Rightarrow> Connection list" where
  "survivors x = (case x of Live c \<Rightarrow> [c] | Destroyed c \<Rightarrow> [])"

definition put_conn ::
    "Listener \<Rightarrow> Connection list \<Rightarrow> Connection list \<Rightarrow> fault + (Instance \<times> fate)
     \<Rightarrow> fault + (Instance \<times> Listener)" where
  "put_conn l cs1 cs2 r =
    bind_r r (\<lambda>(inst, x). Inr (inst, l\<lparr>connections := cs1 @ survivors x @ cs2\<rparr>))"

definition put_inst :: "System \<Rightarrow> fault + (Instance \<times> 'a) \<Rightarrow> fault + System" where
  "put_inst s r = bind_r r (\<lambda>(inst, _). Inr (s\<lparr>sys_inst := inst\<rparr>))"

definition all_conns :: "System \<Rightarrow> Connection list" where
  "all_conns s = concat (map connections (sys_listeners s))"

definition all_delayed :: "System \<Rightarrow> DelayedConnection list" where
  "all_delayed s = concat (map delayed (sys_listeners s))"

inductive sys_do ::
    "lib \<Rightarrow> (nat \<Rightarrow> string \<Rightarrow> nat \<Rightarrow> get_answer) \<Rightarrow> System \<Rightarrow> sys_event \<Rightarrow> fault + System \<Rightarrow> bool"
  for L :: lib and G :: "nat \<Rightarrow> string \<Rightarrow> nat \<Rightarrow> get_answer" where
  do_accept:
  "\<not> sys_down s \<Longrightarrow> sys_listeners s = ls1 @ l # ls2 \<Longrightarrow> length mem = 83 \<Longrightarrow>
   sys_do L G s (SysAccept now mem fd address)
     (put_listener s ls1 ls2 (OnAccept L now mem fd address (sys_inst s) l))"
| do_conn:
  "\<not> sys_down s \<Longrightarrow> sys_listeners s = ls1 @ l # ls2 \<Longrightarrow> connections l = cs1 @ c # cs2 \<Longrightarrow>
   \<not> is_Checked e \<Longrightarrow> deliverable L e c \<Longrightarrow> io_ok L e (sys_inst s) c \<Longrightarrow>
   sys_do L G s (SysConn e)
     (put_listener s ls1 ls2 (put_conn l cs1 cs2 (conn_handle L e (sys_inst s) c)))"
| do_delayed_timer:
  "\<not> sys_down s \<Longrightarrow> sys_listeners s = ls1 @ l # ls2 \<Longrightarrow> delayed l = ds1 @ d # ds2 \<Longrightarrow>
   timer_IsPending L (dc_timer d) \<Longrightarrow> length mem = 83 \<Longrightarrow>
   sys_do L G s (SysDelayedTimer now mem)
     (put_listener s ls1 ls2 (Delayed_OnTimer L now mem (sys_inst s) l d (ds1 @ ds2)))"
| do_delayed_hangup:
  "\<not> sys_down s \<Longrightarrow> sys_listeners s = ls1 @ l # ls2 \<Longrightarrow> delayed l = ds1 @ d # ds2 \<Longrightarrow>
   ev_IsDefined L (dc_socket d) \<Longrightarrow>
   sys_do L G s (SysDelayedHangup now)
     (put_listener s ls1 ls2 (Delayed_OnSocketReady L now (sys_inst s) l d (ds1 @ ds2)))"
| do_cleanup:
  "\<not> sys_down s \<Longrightarrow> timer_IsPending L (cleanup_timer (client_accounting (sys_inst s))) \<Longrightarrow>
   sys_do L G s (SysCleanup now)
     (Inr (s\<lparr>sys_inst := (sys_inst s)
        \<lparr>client_accounting := OnCleanupTimer L now (client_accounting (sys_inst s))\<rparr>\<rparr>))"
| do_datagram:
  "\<not> sys_down s \<Longrightarrow> kl \<in> set (knock_listeners (sys_inst s)) \<Longrightarrow> length payload \<le> kl_max_payload kl \<Longrightarrow>
   sys_do L G s (SysDatagram now reload env kl payload address)
     (put_inst s (OnUdpDatagram L now reload env kl payload address (sys_inst s)))"
| do_take:
  "\<not> sys_down s \<Longrightarrow> job_Take i (jobs (sys_inst s)) = Some q \<Longrightarrow>
   sys_do L G s (SysJobTake i) (Inr (s\<lparr>sys_inst := (sys_inst s)\<lparr>jobs := q\<rparr>\<rparr>))"
| do_enter:
  "\<not> sys_down s \<Longrightarrow> find_job i (jobs (sys_inst s)) = Some j \<Longrightarrow> job_stage j = JobBusy \<Longrightarrow>
   sys_do L G s (SysJobEnter i)
     (bind_r (job_Enter (database (sys_inst s)) i (jobs (sys_inst s))) (\<lambda>q.
      Inr (s\<lparr>sys_inst := (sys_inst s)\<lparr>jobs := q\<rparr>\<rparr>)))"
| do_run:
  "\<not> sys_down s \<Longrightarrow> find_job i (jobs (sys_inst s)) = Some j \<Longrightarrow> job_stage j = JobBusy \<Longrightarrow>
   sys_do L G s (SysJobRun i)
     (bind_r (job_Run L G (database (sys_inst s)) i (jobs (sys_inst s))) (\<lambda>q.
      Inr (s\<lparr>sys_inst := (sys_inst s)\<lparr>jobs := q\<rparr>\<rparr>)))"
| do_done_canceled:
  "\<not> sys_down s \<Longrightarrow> find_job i (jobs (sys_inst s)) = Some j \<Longrightarrow> job_stage j = JobDone \<Longrightarrow>
   job_Done i (jobs (sys_inst s)) = Inr (None, q) \<Longrightarrow>
   sys_do L G s (SysJobDone i io env) (Inr (s\<lparr>sys_inst := (sys_inst s)\<lparr>jobs := q\<rparr>\<rparr>))"
| do_done_conn:
  "\<not> sys_down s \<Longrightarrow> find_job i (jobs (sys_inst s)) = Some j \<Longrightarrow> job_stage j = JobDone \<Longrightarrow>
   job_Done i (jobs (sys_inst s)) = Inr (Some (CbConnection k, user, r), q) \<Longrightarrow>
   sys_listeners s = ls1 @ l # ls2 \<Longrightarrow> connections l = cs1 @ c # cs2 \<Longrightarrow> acc_id (accounting c) = k \<Longrightarrow>
   sys_do L G s (SysJobDone i io env)
     (put_listener s ls1 ls2 (put_conn l cs1 cs2
        (conn_handle L (Checked io user r) ((sys_inst s)\<lparr>jobs := q\<rparr>) c)))"
| do_done_dangling:
  "\<not> sys_down s \<Longrightarrow> find_job i (jobs (sys_inst s)) = Some j \<Longrightarrow> job_stage j = JobDone \<Longrightarrow>
   job_Done i (jobs (sys_inst s)) = Inr (Some (CbConnection k, user, r), q) \<Longrightarrow>
   k \<notin> (\<lambda>c. acc_id (accounting c)) ` set (all_conns s) \<Longrightarrow>
   sys_do L G s (SysJobDone i io env) (Inl (UseAfterFree ''Connection.cxx'' 234))"
| do_done_knock:
  "\<not> sys_down s \<Longrightarrow> find_job i (jobs (sys_inst s)) = Some j \<Longrightarrow> job_stage j = JobDone \<Longrightarrow>
   job_Done i (jobs (sys_inst s)) = Inr (Some (CbKnock this address nft_set, user, r), q) \<Longrightarrow>
   this \<in> set (knock_requests (sys_inst s)) \<Longrightarrow>
   sys_do L G s (SysJobDone i io env)
     (put_inst s (Request_OnCheckCredentials L (io_now io) env this address nft_set user r
        ((sys_inst s)\<lparr>jobs := q\<rparr>)))"
| do_done_knock_dangling:
  "\<not> sys_down s \<Longrightarrow> find_job i (jobs (sys_inst s)) = Some j \<Longrightarrow> job_stage j = JobDone \<Longrightarrow>
   job_Done i (jobs (sys_inst s)) = Inr (Some (CbKnock this address nft_set, user, r), q) \<Longrightarrow>
   this \<notin> set (knock_requests (sys_inst s)) \<Longrightarrow>
   sys_do L G s (SysJobDone i io env) (Inl (UseAfterFree ''KnockListener.cxx'' 87))"
| do_shutdown:
  "\<not> sys_down s \<Longrightarrow> sys_do L G s (SysShutdown now) (OnShutdown L now s)"

definition sys_step ::
    "lib \<Rightarrow> (nat \<Rightarrow> string \<Rightarrow> nat \<Rightarrow> get_answer) \<Rightarrow> System \<Rightarrow> sys_event \<Rightarrow> System \<Rightarrow> bool" where
  "sys_step L G s e t \<longleftrightarrow> sys_do L G s e (Inr t)"

inductive_cases sys_doE: "sys_do L G s e r"

end
