(* ===== verification/Connection_Safety.thy ===== *)
theory Connection_Safety
  imports Connection_Model
begin

text \<open>
  The invariant of a connection and what each handler does to the shared state.  Every
  handler either keeps the connection in a state that satisfies the invariant, or
  destroys it; \<open>effect\<close> says what it leaves in the instance.  The ways a handler can
  fail are listed by \<open>known_fault\<close>.
\<close>

section \<open>The invariant\<close>

text \<open>
  One direction of the forwarding: the receiver waits for writability exactly while there
  are bytes in the pipe, and the sender is not read from meanwhile.
\<close>

definition dir_inv :: "lib \<Rightarrow> socket_event \<Rightarrow> socket_event \<Rightarrow> Splice \<Rightarrow> bool" where
  "dir_inv L from to s \<longleftrightarrow>
     splice_inv s \<and>
     (ev_IsWritePending L to \<longleftrightarrow> splice_size s > 0) \<and>
     (ev_IsReadPending L from \<longrightarrow> splice_size s = 0)"

definition idle_splices :: "Connection \<Rightarrow> bool" where
  "idle_splices c \<longleftrightarrow> splice_in_out c = new_Splice \<and> splice_out_in c = new_Splice"

text \<open>Before there is a server: nothing is forwarded, nothing waits for writability.\<close>

definition no_server :: "lib \<Rightarrow> Connection \<Rightarrow> bool" where
  "no_server L c \<longleftrightarrow> outgoing c = [] \<and> idle_splices c \<and> \<not> ev_IsWritePending L (incoming c)"

definition state_inv :: "lib \<Rightarrow> Config \<Rightarrow> Connection \<Rightarrow> bool" where
  "state_inv L cfg c \<longleftrightarrow>
    (case state c of
       INITIAL \<Rightarrow>
         unat (initial_packets_fill c) < 83 \<and> no_server L c \<and> connect c = [] \<and>
         timer_IsPending L (timeout c) \<and> ev_IsReadPending L (incoming c) \<and> \<not> send_play_server c
     | CHECK_CREDENTIALS \<Rightarrow>
         unat (initial_packets_fill c) = 83 \<and> no_server L c \<and> connect c = [] \<and>
         \<not> timer_IsPending L (timeout c) \<and> \<not> ev_IsReadPending L (incoming c) \<and> \<not> send_play_server c
     | SERVER_LIST \<Rightarrow>
         unat (initial_packets_fill c) = 83 \<and> no_server L c \<and> connect c = [] \<and>
         timer_IsPending L (timeout c) \<and> ev_IsReadPending L (incoming c) \<and> \<not> send_play_server c \<and>
         server_list cfg \<noteq> []
     | CONNECTING \<Rightarrow>
         unat (initial_packets_fill c) = 83 \<and> no_server L c \<and> connect_IsPending L (connect c) \<and>
         \<not> timer_IsPending L (timeout c) \<and>
         (ev_IsReadPending L (incoming c) \<longleftrightarrow> \<not> send_play_server c)
     | SEND_PLAY_SERVER \<Rightarrow>
         unat (initial_packets_fill c) = 83 \<and> ev_IsDefined L (outgoing c) \<and>
         \<not> connect_IsPending L (connect c) \<and> \<not> timer_IsPending L (timeout c) \<and>
         idle_splices c \<and> \<not> ev_IsWritePending L (incoming c) \<and> \<not> ev_IsWritePending L (outgoing c) \<and>
         \<not> ev_IsReadPending L (incoming c) \<and> ev_IsReadPending L (outgoing c)
     | READY \<Rightarrow>
         unat (initial_packets_fill c) = 83 \<and> ev_IsDefined L (outgoing c) \<and>
         \<not> connect_IsPending L (connect c) \<and> \<not> timer_IsPending L (timeout c) \<and>
         dir_inv L (incoming c) (outgoing c) (splice_in_out c) \<and>
         dir_inv L (outgoing c) (incoming c) (splice_out_in c))"

definition conn_inv :: "lib \<Rightarrow> Config \<Rightarrow> Connection \<Rightarrow> bool" where
  "conn_inv L cfg c \<longleftrightarrow>
     ev_IsDefined L (incoming c) \<and> length (initial_packets c) = 83 \<and>
     (cancel_ptr c \<noteq> None \<longleftrightarrow> state c = CHECK_CREDENTIALS) \<and>
     state_inv L cfg c"

lemma new_Splice_size: "splice_size new_Splice = 0"
  by (simp add: new_Splice_def)

section \<open>The shared state\<close>

text \<open>What a handler needs of the instance.\<close>

definition inst_ok :: "Instance \<Rightarrow> Connection \<Rightarrow> bool" where
  "inst_ok inst c \<longleftrightarrow>
     wf_map (client_accounting inst) \<and>
     (\<forall>k. acc_per_client (accounting c) = Some k \<longrightarrow> k \<in> dom (registry (client_accounting inst))) \<and>
     db_inv (database inst) \<and> stock_clean (pipe_stock inst)"

definition job_ok :: "Instance \<Rightarrow> Connection \<Rightarrow> bool" where
  "job_ok inst c \<longleftrightarrow> (\<forall>j. cancel_ptr c = Some j \<longrightarrow> find_job j (jobs inst) \<noteq> None)"

text \<open>A change that other objects do not notice.\<close>

definition quiet :: "Instance \<Rightarrow> Instance \<Rightarrow> bool" where
  "quiet inst inst' \<longleftrightarrow>
     config inst' = config inst \<and> jobs inst' = jobs inst \<and> next_id inst' = next_id inst \<and>
     knock_listeners inst' = knock_listeners inst \<and> knock_requests inst' = knock_requests inst \<and>
     client_connections (metrics inst') = client_connections (metrics inst) \<and>
     server_connections (metrics inst') = server_connections (metrics inst) \<and>
     max_connections (client_accounting inst') = max_connections (client_accounting inst) \<and>
     registry (client_accounting inst') = registry (client_accounting inst) \<and>
     db_extends (database inst) (database inst') \<and>
     wf_map (client_accounting inst') \<and> db_inv (database inst') \<and> stock_clean (pipe_stock inst')"

lemma quiet_trans: "quiet a b \<Longrightarrow> quiet b c \<Longrightarrow> quiet a c"
  by (auto simp: quiet_def intro: db_extends_trans)

lemma quiet_refl: "inst_ok inst c \<Longrightarrow> quiet inst inst"
  by (simp add: quiet_def inst_ok_def)

lemma quiet_inst_ok: "inst_ok inst c \<Longrightarrow> quiet inst inst' \<Longrightarrow> accounting c' = accounting c \<Longrightarrow> inst_ok inst' c'"
  by (simp add: quiet_def inst_ok_def)

lemma quiet_job_ok: "job_ok inst c \<Longrightarrow> quiet inst inst' \<Longrightarrow> cancel_ptr c' = cancel_ptr c \<Longrightarrow> job_ok inst' c'"
  by (simp add: quiet_def job_ok_def)

text \<open>
  What a handler leaves behind.  A connection that lives satisfies the invariant, and either
  nothing happened to the job queue or a job was queued whose result will be
  delivered to this connection; a connection that dies was destroyed after a change
  nobody else notices.
\<close>

definition queued_job :: "lib \<Rightarrow> Connection \<Rightarrow> nat \<Rightarrow> callback CheckCredentialsJob" where
  "queued_job L c i =
    (let cr = credentials (expected_login (decode_ExpectedPackets L (initial_packets c)))
     in new_CheckCredentialsJob i (ExtractString (username cr)) (ExtractString (password cr))
          (CbConnection (acc_id (accounting c))))"

definition server_count :: "lib \<Rightarrow> Connection \<Rightarrow> u64" where
  "server_count L c = (if ev_IsDefined L (outgoing c) then 1 else 0)"

text \<open>The credentials were accepted.\<close>

definition past_check :: "Connection \<Rightarrow> bool" where
  "past_check c \<longleftrightarrow> state c \<noteq> INITIAL \<and> state c \<noteq> CHECK_CREDENTIALS"

definition accepts_at_once :: "reload_env \<Rightarrow> Database \<Rightarrow> bool" where
  "accepts_at_once env d \<longleftrightarrow> (\<exists>d'. CheckCredentials env d = Inr (d', CallbackNow True))"

definition live_effect :: "lib \<Rightarrow> bool \<Rightarrow> io \<Rightarrow> Instance \<Rightarrow> Connection \<Rightarrow> Instance \<Rightarrow> Connection \<Rightarrow> bool" where
  "live_effect L checked io inst c inst' c' \<longleftrightarrow>
     conn_inv L (config inst) c' \<and> accounting c' = accounting c \<and> remote_address c' = remote_address c \<and>
     (state c \<noteq> INITIAL \<longrightarrow> initial_packets c' = initial_packets c) \<and>
     (past_check c' \<longrightarrow> past_check c \<or> checked \<or> accepts_at_once (io_reload io) (database inst)) \<and>
     db_extends (database inst) (database inst') \<and>
     config inst' = config inst \<and>
     knock_listeners inst' = knock_listeners inst \<and> knock_requests inst' = knock_requests inst \<and>
     client_connections (metrics inst') = client_connections (metrics inst) \<and>
     server_connections (metrics inst') + server_count L c =
       server_connections (metrics inst) + server_count L c' \<and>
     max_connections (client_accounting inst') = max_connections (client_accounting inst) \<and>
     registry (client_accounting inst') = registry (client_accounting inst) \<and>
     wf_map (client_accounting inst') \<and> db_inv (database inst') \<and> stock_clean (pipe_stock inst') \<and>
     (if checked \<or> cancel_ptr c' = cancel_ptr c
      then jobs inst' = jobs inst \<and> next_id inst' = next_id inst \<and>
           cancel_ptr c' = (if checked then None else cancel_ptr c)
      else cancel_ptr c = None \<and> cancel_ptr c' = Some (next_id inst) \<and>
           next_id inst' = next_id inst + 1 \<and>
           jobs inst' = queue_Add (queued_job L c' (next_id inst)) (jobs inst))"

definition dead_effect :: "lib \<Rightarrow> bool \<Rightarrow> io \<Rightarrow> Instance \<Rightarrow> Connection \<Rightarrow> Instance \<Rightarrow> Connection \<Rightarrow> bool" where
  "dead_effect L checked io inst c inst' c' \<longleftrightarrow>
     (\<exists>inst1 c1. quiet inst inst1 \<and> accounting c1 = accounting c \<and>
        cancel_ptr c1 = (if checked then None else cancel_ptr c) \<and>
        ev_IsDefined L (outgoing c1) = ev_IsDefined L (outgoing c) \<and>
        Connection_destroy L (io_now io) inst1 c1 = Inr (inst', c') \<and> stock_clean (pipe_stock inst'))"

definition effect :: "lib \<Rightarrow> bool \<Rightarrow> io \<Rightarrow> Instance \<Rightarrow> Connection \<Rightarrow> Instance \<Rightarrow> fate \<Rightarrow> bool" where
  "effect L checked io inst c inst' x =
    (case x of Live c' \<Rightarrow> live_effect L checked io inst c inst' c'
             | Destroyed c' \<Rightarrow> dead_effect L checked io inst c inst' c')"

text \<open>All results of a handler.\<close>

definition ends :: "fault + (Instance \<times> fate) \<Rightarrow> (fault \<Rightarrow> bool) \<Rightarrow> (Instance \<Rightarrow> fate \<Rightarrow> bool) \<Rightarrow> bool" where
  "ends m F Q = (case m of Inl f \<Rightarrow> F f | Inr (inst, x) \<Rightarrow> Q inst x)"

lemma ends_Inr [simp]: "ends (Inr (inst, x)) F Q = Q inst x"
  by (simp add: ends_def)

lemma ends_Inl [simp]: "ends (Inl f) F Q = F f"
  by (simp add: ends_def)

lemma ends_weaken:
  "ends m F Q \<Longrightarrow> (\<And>f. F f \<Longrightarrow> F' f) \<Longrightarrow> (\<And>i x. Q i x \<Longrightarrow> Q' i x) \<Longrightarrow> ends m F' Q'"
  by (auto simp: ends_def split: sum.splits)

lemma ends_bind_live:
  assumes "ends m F Q" and "\<And>f. F f \<Longrightarrow> F' f"
    and "\<And>inst c. Q inst (Live c) \<Longrightarrow> ends (g inst c) F' Q'"
    and "\<And>inst c. Q inst (Destroyed c) \<Longrightarrow> Q' inst (Destroyed c)"
  shows "ends (bind_live m g) F' Q'"
proof (cases m)
  case (Inr r)
  obtain inst x where r: "r = (inst, x)" by (cases r)
  with Inr assms(1) have "Q inst x" by simp
  with Inr r assms(3,4) show ?thesis by (cases x) (simp_all add: bind_live_def)
qed (use assms(1,2) in \<open>simp add: bind_live_def\<close>)

section \<open>Building blocks\<close>

lemma charge_ok:
  assumes "inst_ok inst c"
  shows "\<exists>inst'. charge L now sz inst c = Inr inst' \<and> quiet inst inst' \<and>
    metrics inst' = metrics inst \<and> database inst' = database inst \<and> pipe_stock inst' = pipe_stock inst"
proof -
  from Accounted_UpdateTokenBucket_ok [of "client_accounting inst" "accounting c" L now sz] assms
  obtain m where m: "Accounted_UpdateTokenBucket L now sz (accounting c) (client_accounting inst) = Inr m"
    "wf_map m" "registry m = registry (client_accounting inst)" by (auto simp: inst_ok_def)
  moreover have "max_connections m = max_connections (client_accounting inst)"
    using m(1) by (auto simp: Accounted_UpdateTokenBucket_def Map_UpdateTokenBucket_def split: option.splits)
  ultimately show ?thesis using assms by (simp add: charge_def quiet_def inst_ok_def)
qed

lemma Connection_destroy_ok:
  assumes "inst_ok inst c" and "job_ok inst c" and "splice_inv (splice_in_out c)" and "splice_inv (splice_out_in c)"
  shows "\<exists>inst' c'. Connection_destroy L now inst c = Inr (inst', c') \<and> stock_clean (pipe_stock inst')"
proof -
  from assms(2) obtain q where q: "(case cancel_ptr c of None \<Rightarrow> Inr (jobs inst) | Some j \<Rightarrow> job_Cancel L j (jobs inst)) = Inr q"
    by (cases "cancel_ptr c") (auto simp: job_ok_def job_Cancel_def)
  from assms(1) obtain m where m: "Accounted_destroy L now (accounting c) (client_accounting inst) = Inr m"
    using Accounted_destroy_ok [of "client_accounting inst" "accounting c"]
    by (cases "acc_per_client (accounting c)") (fastforce simp: inst_ok_def Accounted_destroy_def)+
  have "stock_clean (Splice_destroy (splice_in_out c) (Splice_destroy (splice_out_in c) (pipe_stock inst)))"
    using assms by (simp add: stock_clean_destroy inst_ok_def)
  with q m show ?thesis by (simp add: Connection_destroy_def Let_def)
qed

lemma Destroy_effect:
  assumes "inst_ok inst c" and "quiet inst inst1" and "accounting c1 = accounting c"
    and "cancel_ptr c1 = (if checked then None else cancel_ptr c)"
    and "\<not> checked \<Longrightarrow> job_ok inst c"
    and "ev_IsDefined L (outgoing c1) = ev_IsDefined L (outgoing c)"
    and "splice_inv (splice_in_out c1)" and "splice_inv (splice_out_in c1)"
  shows "ends (Destroy L (io_now io) inst1 c1) F (effect L checked io inst c)"
proof -
  have "inst_ok inst1 c1" using assms(1-3) by (rule quiet_inst_ok)
  moreover have "job_ok inst1 c1"
    using assms(2,4,5) by (auto simp: job_ok_def quiet_def split: if_splits)
  ultimately obtain inst' c' where "Connection_destroy L (io_now io) inst1 c1 = Inr (inst', c')" "stock_clean (pipe_stock inst')"
    using Connection_destroy_ok assms(7,8) by blast
  then have "dead_effect L checked io inst c inst' c'" "Destroy L (io_now io) inst1 c1 = Inr (inst', Destroyed c')"
    using assms(2,3,4,6) unfolding dead_effect_def Destroy_def by (blast, simp)
  then show ?thesis by (simp add: effect_def)
qed

lemma live_effectI:
  assumes "conn_inv L (config inst) c'" and "accounting c' = accounting c" and "quiet inst inst1"
    and "inst' = inst1\<lparr>metrics := ms\<rparr>"
    and "client_connections ms = client_connections (metrics inst)"
    and "server_connections ms + server_count L c = server_connections (metrics inst) + server_count L c'"
    and "cancel_ptr c' = (if checked then None else cancel_ptr c)"
    and "state c \<noteq> INITIAL \<Longrightarrow> initial_packets c' = initial_packets c"
    and "past_check c' \<Longrightarrow> past_check c \<or> checked \<or> accepts_at_once (io_reload io) (database inst)"
    and "remote_address c' = remote_address c"
  shows "effect L checked io inst c inst' (Live c')"
  using assms by (simp add: effect_def live_effect_def quiet_def)

lemma live_effect_quiet:
  assumes "conn_inv L (config inst) c'" and "accounting c' = accounting c" and "quiet inst inst'"
    and "ev_IsDefined L (outgoing c') = ev_IsDefined L (outgoing c)"
    and "cancel_ptr c' = (if checked then None else cancel_ptr c)"
    and "state c \<noteq> INITIAL \<Longrightarrow> initial_packets c' = initial_packets c"
    and "past_check c' \<Longrightarrow> past_check c \<or> checked \<or> accepts_at_once (io_reload io) (database inst)"
    and "remote_address c' = remote_address c"
  shows "effect L checked io inst c inst' (Live c')"
  using assms by (simp add: effect_def live_effect_def quiet_def server_count_def)

text \<open>
  How a handler can fail: the client sends before the server's answer to the connect,
  while nothing keeps its data from being read; or no pipe can be created, whose
  exception leaves a \<open>noexcept\<close> handler.
\<close>

definition known_fault :: "lib \<Rightarrow> conn_event \<Rightarrow> Connection \<Rightarrow> fault \<Rightarrow> bool" where
  "known_fault L e c f =
    (case e of
       IncomingReady io events \<Rightarrow>
         (state c = CONNECTING \<and> \<not> send_play_server c \<and> has_event events (ev_READ L) \<and>
            \<not> has_event events (ev_DEAD_MASK L) \<and> f = AssertFailure ''Connection.cxx'' 281) \<or>
         (state c = READY \<and> (\<exists>err. io_stock io = StockCreate (Inl err)) \<and>
            f = StdTerminate ''Connection.cxx'' 271)
     | OutgoingReady io events \<Rightarrow>
         state c = READY \<and> (\<exists>err. io_stock io = StockCreate (Inl err)) \<and>
         f = StdTerminate ''Connection.cxx'' 393
     | _ \<Rightarrow> False)"

section \<open>Login handlers\<close>

text \<open>A connection whose login packets are complete and which has no server yet.\<close>

definition logged :: "lib \<Rightarrow> Connection \<Rightarrow> bool" where
  "logged L c \<longleftrightarrow>
     ev_IsDefined L (incoming c) \<and> length (initial_packets c) = 83 \<and>
     unat (initial_packets_fill c) = 83 \<and> no_server L c \<and> connect c = [] \<and>
     \<not> timer_IsPending L (timeout c) \<and> \<not> ev_IsReadPending L (incoming c) \<and> \<not> send_play_server c"

lemma logged_splices:
  "logged L c \<Longrightarrow> splice_inv (splice_in_out c) \<and> splice_inv (splice_out_in c)"
  by (simp add: logged_def no_server_def idle_splices_def splice_inv_new)

lemma conn_inv_splices:
  "conn_inv L cfg c \<Longrightarrow> splice_inv (splice_in_out c) \<and> splice_inv (splice_out_in c)"
  by (auto simp: conn_inv_def state_inv_def no_server_def idle_splices_def dir_inv_def splice_inv_new
      split: State.splits)

lemma quiet_metrics:
  assumes "quiet inst inst1" and "client_connections ms = client_connections (metrics inst1)"
    and "server_connections ms = server_connections (metrics inst1)"
  shows "quiet inst (inst1\<lparr>metrics := ms\<rparr>)"
  using assms by (simp add: quiet_def)

lemma quiet_database:
  "quiet inst inst1 \<Longrightarrow> db_inv d \<Longrightarrow> db_extends (database inst) d \<Longrightarrow> quiet inst (inst1\<lparr>database := d\<rparr>)"
  by (simp add: quiet_def)

lemma quiet_stock: "quiet inst inst1 \<Longrightarrow> stock_clean p \<Longrightarrow> quiet inst (inst1\<lparr>pipe_stock := p\<rparr>)"
  by (simp add: quiet_def)

lemmas quiet_updates = quiet_metrics quiet_database quiet_stock

text \<open>A charge before anything else.\<close>

lemma ends_charge:
  assumes "inst_ok inst0 c0" and "quiet inst0 inst" and "accounting c = accounting c0"
    and "\<And>inst'. quiet inst0 inst' \<Longrightarrow> metrics inst' = metrics inst \<Longrightarrow> ends (g inst') F Q"
  shows "ends (bind_r (charge L now sz inst c) g) F Q"
proof -
  have "inst_ok inst c" using assms(1-3) by (rule quiet_inst_ok)
  from charge_ok [OF this, of L now sz] obtain inst' where
    "charge L now sz inst c = Inr inst'" "quiet inst inst'" "metrics inst' = metrics inst" by blast
  with assms(2,4) quiet_trans show ?thesis by (metis bind_r.simps(2))
qed

text \<open>User name and password of the packets a connection has received.\<close>

definition conn_user :: "lib \<Rightarrow> Connection \<Rightarrow> string" where
  "conn_user L c =
     ExtractString (username (credentials (expected_login (decode_ExpectedPackets L (initial_packets c)))))"

definition conn_pass :: "lib \<Rightarrow> Connection \<Rightarrow> string" where
  "conn_pass L c =
     ExtractString (password (credentials (expected_login (decode_ExpectedPackets L (initial_packets c)))))"

text \<open>A connection whose packets are complete, when they are about to be handled.\<close>

definition login_ready :: "lib \<Rightarrow> Connection \<Rightarrow> bool" where
  "login_ready L c \<longleftrightarrow>
     cancel_ptr c = None \<and> ev_IsDefined L (incoming c) \<and> length (initial_packets c) = 83 \<and>
     unat (initial_packets_fill c) = 83 \<and> no_server L c \<and> connect c = [] \<and> \<not> send_play_server c"

lemma login_ready_splices:
  "login_ready L c \<Longrightarrow> splice_inv (splice_in_out c) \<and> splice_inv (splice_out_in c) \<and> outgoing c = []"
  by (simp add: login_ready_def no_server_def idle_splices_def splice_inv_new)

context event_lib
begin

lemma sock_send_flags [simp]:
  "ev_IsDefined L (sock_send r bs s) = ev_IsDefined L s"
  "ev_IsReadPending L (sock_send r bs s) = ev_IsReadPending L s"
  "ev_IsWritePending L (sock_send r bs s) = ev_IsWritePending L s"
  by (simp_all add: sock_send_def)

lemma reject_login_effect:
  assumes "inst_ok inst c" and "quiet inst inst1" and "accounting c1 = accounting c"
    and "cancel_ptr c1 = (if checked then None else cancel_ptr c)"
    and "\<not> checked \<Longrightarrow> job_ok inst c"
    and "ev_IsDefined L (outgoing c1) = ev_IsDefined L (outgoing c)"
    and "splice_inv (splice_in_out c1)" and "splice_inv (splice_out_in c1)"
  shows "ends (reject_login L io inst1 c1) F (effect L checked io inst c)"
  unfolding reject_login_def SendAccountLoginReject_def Let_def split_beta fst_conv snd_conv
  by (rule Destroy_effect) (use assms in auto)

lemma OnCheckCredentials_effect:
  assumes ok: "inst_ok inst0 c0" "quiet inst0 inst" "accounting c = accounting c0"
    and chk: "logged L c" "state c = CHECK_CREDENTIALS" "outgoing c0 = []"
    and cp: "checked \<or> cancel_ptr c0 = None \<and> job_ok inst0 c0"
    and pk: "state c0 \<noteq> INITIAL \<Longrightarrow> initial_packets c = initial_packets c0"
    and pc: "checked \<or> accepts_at_once (io_reload io) (database inst0)"
    and ra: "remote_address c = remote_address c0"
  shows "ends (OnCheckCredentials L io user r inst c) (\<lambda>f. False) (effect L checked io inst0 c0)"
proof -
  let ?c = "c\<lparr>cancel_ptr := None\<rparr>"
  have cfg: "quiet inst0 i \<Longrightarrow> config i = config inst0" for i by (simp add: quiet_def)
  have chk': "outgoing c = []" "unat (initial_packets_fill c) = 83" "length (initial_packets c) = 83"
    "splice_inv (splice_in_out c)" "splice_inv (splice_out_in c)"
    using chk(1) logged_splices by (auto simp: logged_def no_server_def)
  have send: "ends (SendServerList L io i ?c) (\<lambda>f. False) (effect L checked io inst0 c0)"
    if "quiet inst0 i" "server_list (config i) \<noteq> []" for i
  proof (cases "io_send io < 0")
    case True
    show ?thesis
      using that chk' True
      by (auto simp: SendServerList_def Let_def intro!: Destroy_effect [OF ok(1)])
        (use ok cp chk in auto)
  next
    case False
    show ?thesis
      using that chk chk' False cp ok(3) pk pc ra
      by (auto simp: SendServerList_def Let_def conn_inv_def state_inv_def logged_def no_server_def
          idle_splices_def cfg intro!: live_effect_quiet)
  qed
  show ?thesis
  proof (cases r)
    case False
    then show ?thesis
      using chk(2) unfolding OnCheckCredentials_def Let_def
      by (auto intro!: ends_charge [OF ok(1)] reject_login_effect [OF ok(1)] quiet_updates ok(2))
        (use ok cp chk chk' in auto)
  next
    case True
    have go: "ends (Inr (i, Live (c\<lparr>cancel_ptr := None, state := CONNECTING,
          incoming := EvScheduleRead # incoming c, outgoing_address := a,
          connect := CnConnect a t # connect c\<rparr>))) (\<lambda>f. False) (effect L checked io inst0 c0)"
      if "quiet inst0 i" for i a t
      unfolding ends_Inr
      by (rule live_effect_quiet)
        (use that chk cp ok(3) pk pc ra in \<open>auto simp: conn_inv_def state_inv_def logged_def no_server_def
            idle_splices_def\<close>)
    from True chk(2) show ?thesis
      unfolding OnCheckCredentials_def Let_def
      by (auto intro!: ends_charge [OF ok(1,2)] send go [simplified] quiet_updates ok(3))
  qed
qed

lemma INITIAL_fill:
  assumes "unat (n :: byte) < 83" and "length bs \<le> 83 - unat n"
  shows "unat (n + of_nat (length bs)) = unat n + length bs"
proof -
  have "unat (of_nat (length bs) :: byte) = length bs"
    using assms by (simp add: unat_of_nat)
  with assms show ?thesis by (simp add: unat_word_ariths)
qed

lemma HandleLoginPackets_valid:
  assumes ok: "inst_ok inst c0" "job_ok inst c0" "cancel_ptr c0 = None" "outgoing c0 = []" "state c0 = INITIAL"
    and c: "accounting c = accounting c0" "login_ready L c" "remote_address c = remote_address c0"
    and cmds: "seed_cmd (expected_seed (decode_ExpectedPackets L (initial_packets c))) = Command_Seed"
      "login_cmd (expected_login (decode_ExpectedPackets L (initial_packets c))) = Command_AccountLogin"
    and valid: "IsValidUsername L (conn_user L c)"
  shows "ends (HandleLoginPackets L io inst c) (\<lambda>f. False) (effect L False io inst c0)"
proof -
  let ?c = "c\<lparr>incoming := EvCancelOnlyRead # incoming c, timeout := TmCancel # timeout c\<rparr>"
  let ?k = "?c\<lparr>state := CHECK_CREDENTIALS\<rparr>"
  note refl = quiet_refl [OF ok(1)] and s = login_ready_splices [OF c(2)] and v = valid [unfolded conn_user_def]
  note c' = c [unfolded login_ready_def]
  have k: "logged L ?k" using c' by (simp add: logged_def no_server_def idle_splices_def)
  have dbinv: "db_inv (database inst)" using ok(1) by (simp add: inst_ok_def)
  then show ?thesis
  proof (cases rule: CheckCredentials_cases [of _ "io_reload io"])
    case (throws d' e)
    note fr = CheckCredentials_frame [OF dbinv throws(1)]
    from throws cmds v show ?thesis
      unfolding HandleLoginPackets_def Let_def
      by (auto intro!: ends_charge [OF ok(1)] reject_login_effect [OF ok(1)] quiet_updates refl)
        (use ok c' s fr in auto)
  next
    case (checks d')
    with cmds v have "HandleLoginPackets L io inst c =
        Inr (inst\<lparr>database := d', jobs := queue_Add (queued_job L (?k\<lparr>cancel_ptr := Some (next_id inst)\<rparr>) (next_id inst)) (jobs inst),
                  next_id := next_id inst + 1\<rparr>, Live (?k\<lparr>cancel_ptr := Some (next_id inst)\<rparr>))"
      by (simp add: HandleLoginPackets_def Let_def queued_job_def)
    then show ?thesis
      using ok c' k checks(2) CheckCredentials_frame [OF dbinv checks(1)]
      by (simp add: effect_def live_effect_def past_check_def conn_inv_def state_inv_def logged_def inst_ok_def
          server_count_def no_server_def idle_splices_def queued_job_def)
  next
    case accepts
    with cmds v have "HandleLoginPackets L io inst c =
        OnCheckCredentials L io (conn_user L c) True (inst\<lparr>database := database inst\<rparr>) ?k"
      by (simp add: HandleLoginPackets_def Let_def conn_user_def)
    then show ?thesis
      using OnCheckCredentials_effect [OF ok(1) quiet_database [OF refl dbinv], of ?k False io "conn_user L c" True]
        ok c' k accepts(1) by (auto simp: accepts_at_once_def)
  qed
qed

lemma HandleLoginPackets_effect:
  assumes ok: "inst_ok inst c0" "job_ok inst c0" "cancel_ptr c0 = None" "outgoing c0 = []" "state c0 = INITIAL"
    and c: "accounting c = accounting c0" "login_ready L c" "remote_address c = remote_address c0"
  shows "ends (HandleLoginPackets L io inst c) (\<lambda>f. False) (effect L False io inst c0)"
proof -
  note refl = quiet_refl [OF ok(1)] and s = login_ready_splices [OF c(2)] and c' = c [unfolded login_ready_def]
  let ?cmds = "seed_cmd (expected_seed (decode_ExpectedPackets L (initial_packets c))) = Command_Seed \<and>
    login_cmd (expected_login (decode_ExpectedPackets L (initial_packets c))) = Command_AccountLogin"
  consider "\<not> ?cmds" | "?cmds" "\<not> IsValidUsername L (conn_user L c)" | "?cmds" "IsValidUsername L (conn_user L c)"
    by blast
  then show ?thesis
  proof cases
    case 1
    then show ?thesis
      unfolding HandleLoginPackets_def Let_def
      by (auto intro!: ends_charge [OF ok(1)] Destroy_effect [OF ok(1)] quiet_updates refl)
        (use ok c' s in auto)
  next
    case 2
    then show ?thesis
      unfolding HandleLoginPackets_def Let_def conn_user_def
      by (auto intro!: ends_charge [OF ok(1)] reject_login_effect [OF ok(1)] quiet_updates refl)
        (use ok c' s in auto)
  next
    case 3
    then show ?thesis using HandleLoginPackets_valid [OF ok c] by blast
  qed
qed

lemma ReceiveLoginPackets_effect:
  assumes "inst_ok inst c" and "job_ok inst c" and "conn_inv L (config inst) c" and "state c = INITIAL"
  shows "ends (ReceiveLoginPackets L io inst c) (\<lambda>f. False) (effect L False io inst c)"
proof -
  let ?off = "unat (initial_packets_fill c)"
  from assms(3,4) have c: "?off < 83" "no_server L c" "outgoing c = []" "connect c = []"
    "timer_IsPending L (timeout c)" "ev_IsReadPending L (incoming c)" "\<not> send_play_server c"
    "ev_IsDefined L (incoming c)" "length (initial_packets c) = 83" "cancel_ptr c = None"
    by (simp_all add: conn_inv_def state_inv_def no_server_def)
  have destroy: "ends (Destroy L (io_now io) inst c) (\<lambda>f. False) (effect L False io inst c)"
    by (rule Destroy_effect [OF assms(1) quiet_refl [OF assms(1)]])
      (use assms conn_inv_splices [OF assms(3)] in auto)
  show ?thesis
  proof (cases "ReadNoWait (io_reads io 0) (83 - ?off)")
    case (ReadErr e)
    with assms(4) c(1) destroy show ?thesis by (simp add: ReceiveLoginPackets_def Let_def)
  next
    case (ReadBytes bs)
    then have len: "length bs \<le> 83 - ?off" by (cases "io_reads io 0") auto
    let ?c = "c\<lparr>initial_packets := write_at ?off bs (initial_packets c),
                initial_packets_fill := initial_packets_fill c + of_nat (length bs)\<rparr>"
    note fill = INITIAL_fill [OF c(1) len]
    have keep: "no_server L ?c" "length (initial_packets ?c) = 83"
      using c len by (simp_all add: no_server_def idle_splices_def)
    show ?thesis
    proof (cases "bs = [] \<or> ?off + length bs < 83")
      case True
      then show ?thesis
        using ReadBytes assms c destroy keep fill
        by (auto simp: ReceiveLoginPackets_def Let_def conn_inv_def state_inv_def past_check_def
            intro!: live_effect_quiet quiet_refl [OF assms(1)])
    next
      case False
      with len c(1) have "?off + length bs = 83" by auto
      with HandleLoginPackets_effect [OF assms(1,2) c(10,3) assms(4), of ?c io] ReadBytes assms(4) c keep fill False
      show ?thesis by (simp add: ReceiveLoginPackets_def Let_def login_ready_def)
    qed
  qed
qed

lemma Destroy_now:
  assumes "inst_ok inst c" and "job_ok inst c" and "conn_inv L (config inst) c"
    and "accounting c' = accounting c" and "cancel_ptr c' = cancel_ptr c"
    and "ev_IsDefined L (outgoing c') = ev_IsDefined L (outgoing c)"
    and "splice_in_out c' = splice_in_out c" and "splice_out_in c' = splice_out_in c"
    and "quiet inst inst'"
  shows "ends (Destroy L (io_now io) inst' c') F (effect L False io inst c)"
  by (rule Destroy_effect [OF assms(1,9)]) (use assms conn_inv_splices [OF assms(3)] in auto)

lemma ReceivePlayServer_effect:
  assumes "inst_ok inst c" and "job_ok inst c" and "conn_inv L (config inst) c" and "state c = SERVER_LIST"
  shows "ends (ReceivePlayServer L io inst c) (\<lambda>f. False) (effect L False io inst c)"
proof -
  note destroy = Destroy_now [OF assms(1-3) refl refl refl refl refl quiet_refl [OF assms(1)]]
  have c: "unat (initial_packets_fill c) = 83" "server_list (config inst) \<noteq> []"
    using assms(3,4) by (simp_all add: conn_inv_def state_inv_def)
  have live: "effect L False io inst c inst
      (Live (c\<lparr>outgoing_address := a, incoming := EvCancelOnlyRead # incoming c,
               timeout := TmCancel # timeout c, state := CONNECTING, send_play_server := True,
               connect := CnConnect a t # connect c\<rparr>))" for a t
    using assms
    by (auto simp: conn_inv_def state_inv_def no_server_def idle_splices_def past_check_def
        intro!: live_effect_quiet quiet_refl [OF assms(1)])
  show ?thesis
    using assms(4) c destroy live
    by (cases "ReadNoWait (io_reads io 0) 3") (simp_all add: ReceivePlayServer_def Let_def)
qed

section \<open>Forwarding handlers\<close>

lemma DoSpliceSend_dir:
  assumes "splice_inv s" and "splice_size s > 0" and "stock_clean stock"
  obtains ok from' to' s' stock' where
    "DoSpliceSend r from to s stock = Inr (ok, from', to', s', stock')"
    "stock_clean stock'" "splice_inv s'" "ok \<Longrightarrow> dir_inv L from' to' s'"
    "ev_IsDefined L from' = ev_IsDefined L from" "ev_IsDefined L to' = ev_IsDefined L to"
    "ev_IsReadPending L to' = ev_IsReadPending L to"
    "ev_IsWritePending L from' = ev_IsWritePending L from"
proof -
  let ?r = "splice_upto r (splice_size s)"
  obtain res moved s' stock' where S: "SendTo ?r s stock = Inr (res, moved, s', stock')"
    using SendTo_result [OF assms(1,2), of ?r stock] by (metis prod_cases4)
  have "splice_out_ok ?r s" by (cases r) (simp_all add: splice_out_ok_def)
  from SendTo_ok [OF assms(1,3) this S]
  have s': "splice_inv s'" "stock_clean stock'" "res = SEND_OK \<longleftrightarrow> splice_size s' = 0" by auto
  have "DoSpliceSend r from to s stock = Inr (res \<noteq> SEND_ERROR,
      (if res = SEND_OK \<or> res = SEND_ERROR then from else EvCancelOnlyRead # from),
      (if res = SEND_OK then EvCancelOnlyWrite # SockSplice moved # to
       else if res = SEND_ERROR then SockSplice moved # to
       else EvScheduleWrite # SockSplice moved # to), s', stock')"
    using S by (cases res) (simp_all add: DoSpliceSend_def)
  then show thesis
    by (rule that) (use s' in \<open>auto simp: dir_inv_def\<close>)
qed

lemma forward_in_out_effect:
  assumes ok: "inst_ok inst0 c0" "job_ok inst0 c0" "quiet inst0 inst"
    and c: "accounting c = accounting c0" "cancel_ptr c = cancel_ptr c0" "ev_IsDefined L (outgoing c0)"
    "conn_inv L (config inst) (c\<lparr>splice_in_out := s0, outgoing := o0\<rparr>)"
    "ev_IsDefined L (outgoing c)" "ev_IsReadPending L (outgoing c) = ev_IsReadPending L o0"
    "state c = READY" "initial_packets c = initial_packets c0" "state c0 = READY" "remote_address c = remote_address c0"
    and s: "splice_inv (splice_in_out c)" "splice_size (splice_in_out c) > 0"
  shows "ends (forward_in_out L io r inst c) (\<lambda>f. False) (effect L False io inst0 c0)"
proof -
  have st: "stock_clean (pipe_stock inst)" "config inst = config inst0"
    using ok(3) by (simp_all add: quiet_def)
  from DoSpliceSend_dir [OF s st(1), of r "incoming c" "outgoing c"]
  obtain b i out s' stock' where D:
    "DoSpliceSend r (incoming c) (outgoing c) (splice_in_out c) (pipe_stock inst) = Inr (b, i, out, s', stock')"
    "stock_clean stock'" "splice_inv s'" "b \<Longrightarrow> dir_inv L i out s'"
    "ev_IsDefined L i = ev_IsDefined L (incoming c)" "ev_IsDefined L out = ev_IsDefined L (outgoing c)"
    "ev_IsReadPending L out = ev_IsReadPending L (outgoing c)"
    "ev_IsWritePending L i = ev_IsWritePending L (incoming c)" by blast
  let ?c = "c\<lparr>incoming := i, outgoing := out, splice_in_out := s'\<rparr>"
  show ?thesis
  proof (cases b)
    case True
    then have "conn_inv L (config inst) ?c"
      using c D by (auto simp: conn_inv_def state_inv_def dir_inv_def)
    with True D c st ok show ?thesis
      by (auto simp: forward_in_out_def Let_def past_check_def intro!: live_effect_quiet quiet_updates)
  next
    case False
    have "splice_inv (splice_out_in c)" using c(4,7) by (simp add: conn_inv_def state_inv_def dir_inv_def)
    with False D c ok show ?thesis
      by (auto simp: forward_in_out_def Let_def intro!: Destroy_effect [OF ok(1)] quiet_updates)
  qed
qed

lemma forward_out_in_effect:
  assumes ok: "inst_ok inst0 c0" "job_ok inst0 c0" "quiet inst0 inst"
    and c: "accounting c = accounting c0" "cancel_ptr c = cancel_ptr c0" "ev_IsDefined L (outgoing c0)"
    "conn_inv L (config inst) (c\<lparr>splice_out_in := s0, incoming := i0\<rparr>)"
    "ev_IsDefined L (incoming c)" "ev_IsReadPending L (incoming c) = ev_IsReadPending L i0"
    "state c = READY" "initial_packets c = initial_packets c0" "state c0 = READY" "remote_address c = remote_address c0"
    and s: "splice_inv (splice_out_in c)" "splice_size (splice_out_in c) > 0"
  shows "ends (forward_out_in L io r inst c) (\<lambda>f. False) (effect L False io inst0 c0)"
proof -
  have st: "stock_clean (pipe_stock inst)" "config inst = config inst0"
    using ok(3) by (simp_all add: quiet_def)
  from DoSpliceSend_dir [OF s st(1), of r "outgoing c" "incoming c"]
  obtain b out i s' stock' where D:
    "DoSpliceSend r (outgoing c) (incoming c) (splice_out_in c) (pipe_stock inst) = Inr (b, out, i, s', stock')"
    "stock_clean stock'" "splice_inv s'" "b \<Longrightarrow> dir_inv L out i s'"
    "ev_IsDefined L out = ev_IsDefined L (outgoing c)" "ev_IsDefined L i = ev_IsDefined L (incoming c)"
    "ev_IsReadPending L i = ev_IsReadPending L (incoming c)"
    "ev_IsWritePending L out = ev_IsWritePending L (outgoing c)" by blast
  let ?c = "c\<lparr>incoming := i, outgoing := out, splice_out_in := s'\<rparr>"
  have out: "ev_IsDefined L (outgoing c)" using c(4,7) by (simp add: conn_inv_def state_inv_def)
  show ?thesis
  proof (cases b)
    case True
    then have "conn_inv L (config inst) ?c"
      using c D by (auto simp: conn_inv_def state_inv_def dir_inv_def)
    with True D c st ok out show ?thesis
      by (auto simp: forward_out_in_def Let_def past_check_def intro!: live_effect_quiet quiet_updates)
  next
    case False
    have "splice_inv (splice_in_out c)" using c(4,7) by (simp add: conn_inv_def state_inv_def dir_inv_def)
    with False D c ok out show ?thesis
      by (auto simp: forward_out_in_def Let_def intro!: Destroy_effect [OF ok(1)] quiet_updates)
  qed
qed

lemma READY_parts:
  assumes "conn_inv L cfg c" and "state c = READY"
  shows "dir_inv L (incoming c) (outgoing c) (splice_in_out c)"
    and "dir_inv L (outgoing c) (incoming c) (splice_out_in c)"
    and "ev_IsDefined L (incoming c)" and "ev_IsDefined L (outgoing c)" and "cancel_ptr c = None"
  using assms by (simp_all add: conn_inv_def state_inv_def)

text \<open>
  What is left of \<open>ReceiveFrom\<close> when the source is read from: its pipe is empty before,
  so that the result \<open>PIPE_FULL\<close> does not occur, and nothing is lost when the source
  has been closed.
\<close>

lemma ReceiveFrom_idle:
  assumes "splice_inv s" and "splice_size s = 0" and "stock_clean stock" and "stock_answer_ok a stock"
    and "ReceiveFrom a r s stock = Inr (res, s', stock')"
  shows "res \<noteq> RECEIVE_PIPE_FULL" and "stock_clean stock'" and "splice_inv s'"
    and "res = RECEIVE_OK \<Longrightarrow> splice_size s' > 0" and "res \<noteq> RECEIVE_OK \<Longrightarrow> splice_size s' = 0"
proof -
  note R = ReceiveFrom_ok [OF assms(1,3,4,5)]
  show "res \<noteq> RECEIVE_PIPE_FULL" "stock_clean stock'" "splice_inv s'" "res = RECEIVE_OK \<Longrightarrow> splice_size s' > 0"
    using R assms(2) by auto
  show "splice_size s' = 0" if "res \<noteq> RECEIVE_OK"
    using that assms(2,5)
    by (cases r) (auto simp: ReceiveFrom_def res_simps split: if_splits)
qed

lemma splice_inv_reset [simp]: "splice_inv (s\<lparr>received_bytes := n\<rparr>) = splice_inv s"
  by (simp add: splice_inv_def splice_content_def)

lemma receive_incoming_effect:
  assumes ok: "inst_ok inst0 c0" "job_ok inst0 c0" "quiet inst0 inst"
    and c: "accounting c = accounting c0" "cancel_ptr c = cancel_ptr c0" "ev_IsDefined L (outgoing c0)"
    "conn_inv L (config inst) c" "state c = READY"
    "initial_packets c = initial_packets c0" "state c0 = READY" "remote_address c = remote_address c0"
    and rd: "ev_IsReadPending L (incoming c)" "stock_answer_ok (io_stock io) (pipe_stock inst)"
  shows "ends (receive_incoming L io inst c)
    (\<lambda>f. \<exists>e. io_stock io = StockCreate (Inl e) \<and> f = Thrown (ErrnoError ''pipe() failed'' e))
    (effect L False io inst0 c0)"
proof -
  note P = READY_parts [OF c(4,5)]
  let ?s = "(splice_in_out c)\<lparr>received_bytes := 0\<rparr>"
  have s: "splice_inv ?s" "splice_size ?s = 0" "splice_inv (splice_out_in c)"
    using P(1,2) rd(1) by (simp_all add: dir_inv_def)
  have st: "stock_clean (pipe_stock inst)" "config inst = config inst0" using ok(3) by (simp_all add: quiet_def)
  show ?thesis
  proof (cases "ReceiveFrom (io_stock io) (io_receive io) ?s (pipe_stock inst)")
    case (Inl f)
    from ReceiveFrom_faults [OF s(1) this] Inl show ?thesis by (auto simp: receive_incoming_def)
  next
    case (Inr x)
    obtain res s' stock' where x: "x = (res, s', stock')" by (cases x)
    note R = ReceiveFrom_idle [OF s(1,2) st(1) rd(2) Inr [unfolded x]]
    note D = Destroy_effect [OF ok(1)]
    have ci: "conn_inv L (config inst) (c\<lparr>splice_in_out := splice_in_out c, outgoing := outgoing c\<rparr>)"
      using c(4) by simp
    show ?thesis
    proof (cases res)
      case RECEIVE_OK
      then have "ends (forward_in_out L io (io_forward io)
          (inst\<lparr>pipe_stock := stock', metrics := (metrics inst)
             \<lparr>client_bytes := client_bytes (metrics inst) + received_bytes s'\<rparr>\<rparr>) (c\<lparr>splice_in_out := s'\<rparr>))
          (\<lambda>f. False) (effect L False io inst0 c0)"
        using R ok c P ci
        by (intro forward_in_out_effect [where ?s0.0 = "splice_in_out c" and ?o0.0 = "outgoing c"])
          (auto intro!: quiet_updates)
      with Inr x RECEIVE_OK show ?thesis by (auto simp: receive_incoming_def Let_def elim!: ends_weaken)
    next
      case RECEIVE_SOCKET_BLOCKING
      then have "conn_inv L (config inst) (c\<lparr>splice_in_out := s'\<rparr>)"
        using c(4,5) R s(2) P(1) by (simp add: conn_inv_def state_inv_def dir_inv_def)
      with Inr x RECEIVE_SOCKET_BLOCKING R ok c P(4) st(2) show ?thesis
        by (auto simp: receive_incoming_def past_check_def intro!: live_effect_quiet quiet_updates)
    qed (use Inr x R ok c P s in \<open>auto simp: receive_incoming_def intro!: D quiet_updates\<close>)
  qed
qed

lemma receive_outgoing_effect:
  assumes ok: "inst_ok inst0 c0" "job_ok inst0 c0" "quiet inst0 inst"
    and c: "accounting c = accounting c0" "cancel_ptr c = cancel_ptr c0" "ev_IsDefined L (outgoing c0)"
    "conn_inv L (config inst) c" "state c = READY"
    "initial_packets c = initial_packets c0" "state c0 = READY" "remote_address c = remote_address c0"
    and rd: "ev_IsReadPending L (outgoing c)" "stock_answer_ok (io_stock io) (pipe_stock inst)"
  shows "ends (receive_outgoing L io inst c)
    (\<lambda>f. \<exists>e. io_stock io = StockCreate (Inl e) \<and> f = Thrown (ErrnoError ''pipe() failed'' e))
    (effect L False io inst0 c0)"
proof -
  note P = READY_parts [OF c(4,5)]
  let ?s = "(splice_out_in c)\<lparr>received_bytes := 0\<rparr>"
  have s: "splice_inv ?s" "splice_size ?s = 0" "splice_inv (splice_in_out c)"
    using P(1,2) rd(1) by (simp_all add: dir_inv_def)
  have st: "stock_clean (pipe_stock inst)" "config inst = config inst0" using ok(3) by (simp_all add: quiet_def)
  show ?thesis
  proof (cases "ReceiveFrom (io_stock io) (io_receive io) ?s (pipe_stock inst)")
    case (Inl f)
    from ReceiveFrom_faults [OF s(1) this] Inl show ?thesis by (auto simp: receive_outgoing_def)
  next
    case (Inr x)
    obtain res s' stock' where x: "x = (res, s', stock')" by (cases x)
    note R = ReceiveFrom_idle [OF s(1,2) st(1) rd(2) Inr [unfolded x]]
    note D = Destroy_effect [OF ok(1)]
    have ci: "conn_inv L (config inst) (c\<lparr>splice_out_in := splice_out_in c, incoming := incoming c\<rparr>)"
      using c(4) by simp
    show ?thesis
    proof (cases res)
      case RECEIVE_OK
      then have "ends (forward_out_in L io (io_forward io)
          (inst\<lparr>pipe_stock := stock', metrics := (metrics inst)
             \<lparr>server_bytes := server_bytes (metrics inst) + received_bytes s'\<rparr>\<rparr>) (c\<lparr>splice_out_in := s'\<rparr>))
          (\<lambda>f. False) (effect L False io inst0 c0)"
        using R ok c P ci
        by (intro forward_out_in_effect [where ?s0.0 = "splice_out_in c" and ?i0.0 = "incoming c"])
          (auto intro!: quiet_updates)
      with Inr x RECEIVE_OK show ?thesis by (auto simp: receive_outgoing_def Let_def elim!: ends_weaken)
    next
      case RECEIVE_SOCKET_BLOCKING
      then have "conn_inv L (config inst) (c\<lparr>splice_out_in := s'\<rparr>)"
        using c(4,5) R s(2) P(2) by (simp add: conn_inv_def state_inv_def dir_inv_def)
      with Inr x RECEIVE_SOCKET_BLOCKING R ok c P(4) st(2) show ?thesis
        by (auto simp: receive_outgoing_def past_check_def intro!: live_effect_quiet quiet_updates)
    qed (use Inr x R ok c P s in \<open>auto simp: receive_outgoing_def intro!: D quiet_updates\<close>)
  qed
qed

lemma flush_incoming_effect:
  assumes ok: "inst_ok inst c" "job_ok inst c" "conn_inv L (config inst) c" "state c = READY"
    and fl: "flags_ok L (incoming c) events"
  shows "ends (flush_incoming L io events inst c) (\<lambda>f. False)
    (\<lambda>inst' x. effect L False io inst c inst' x \<and>
       (\<forall>c'. x = Live c' \<longrightarrow> quiet inst inst' \<and> state c' = READY \<and>
          ev_IsReadPending L (incoming c') = ev_IsReadPending L (incoming c)))"
proof (cases "has_event events (ev_WRITE L)")
  case True
  note P = READY_parts [OF ok(3,4)]
  have s: "splice_inv (splice_out_in c)" "splice_size (splice_out_in c) > 0" "stock_clean (pipe_stock inst)"
    using P(2) fl True ok(1) by (simp_all add: dir_inv_def flags_ok_def inst_ok_def)
  have E: "ends (forward_out_in L io (io_flush io) inst c) (\<lambda>f. False) (effect L False io inst c)"
    by (rule forward_out_in_effect [where ?s0.0 = "splice_out_in c" and ?i0.0 = "incoming c"])
      (use ok P s quiet_refl [OF ok(1)] in auto)
  have "ends (forward_out_in L io (io_flush io) inst c) (\<lambda>f. False)
    (\<lambda>inst' x. \<forall>c'. x = Live c' \<longrightarrow> quiet inst inst' \<and> state c' = READY \<and>
          ev_IsReadPending L (incoming c') = ev_IsReadPending L (incoming c))"
    by (rule DoSpliceSend_dir [OF s, of "io_flush io" "outgoing c" "incoming c"])
      (use ok(4) quiet_refl [OF ok(1)] E in \<open>auto simp: forward_out_in_def Let_def Destroy_def ends_def bind_r_split
         intro!: quiet_updates split: sum.splits\<close>)
  with E True show ?thesis by (auto simp: flush_incoming_def ends_def split: sum.splits)
next
  case False
  with ok show ?thesis
    by (auto simp: flush_incoming_def intro!: live_effect_quiet quiet_refl [OF ok(1)])
qed

lemma flush_outgoing_effect:
  assumes ok: "inst_ok inst c" "job_ok inst c" "conn_inv L (config inst) c" "state c = READY"
    and fl: "flags_ok L (outgoing c) events"
  shows "ends (flush_outgoing L io events inst c) (\<lambda>f. False)
    (\<lambda>inst' x. effect L False io inst c inst' x \<and>
       (\<forall>c'. x = Live c' \<longrightarrow> quiet inst inst' \<and> state c' = READY \<and>
          ev_IsReadPending L (outgoing c') = ev_IsReadPending L (outgoing c)))"
proof (cases "has_event events (ev_WRITE L)")
  case True
  note P = READY_parts [OF ok(3,4)]
  have s: "splice_inv (splice_in_out c)" "splice_size (splice_in_out c) > 0" "stock_clean (pipe_stock inst)"
    using P(1) fl True ok(1) by (simp_all add: dir_inv_def flags_ok_def inst_ok_def)
  have E: "ends (forward_in_out L io (io_flush io) inst c) (\<lambda>f. False) (effect L False io inst c)"
    by (rule forward_in_out_effect [where ?s0.0 = "splice_in_out c" and ?o0.0 = "outgoing c"])
      (use ok P s quiet_refl [OF ok(1)] in auto)
  have "ends (forward_in_out L io (io_flush io) inst c) (\<lambda>f. False)
    (\<lambda>inst' x. \<forall>c'. x = Live c' \<longrightarrow> quiet inst inst' \<and> state c' = READY \<and>
          ev_IsReadPending L (outgoing c') = ev_IsReadPending L (outgoing c))"
    by (rule DoSpliceSend_dir [OF s, of "io_flush io" "incoming c" "outgoing c"])
      (use ok(4) quiet_refl [OF ok(1)] E in \<open>auto simp: forward_in_out_def Let_def Destroy_def ends_def bind_r_split
         intro!: quiet_updates split: sum.splits\<close>)
  with E True show ?thesis by (auto simp: flush_outgoing_def ends_def split: sum.splits)
next
  case False
  with ok show ?thesis
    by (auto simp: flush_outgoing_def intro!: live_effect_quiet quiet_refl [OF ok(1)])
qed

section \<open>All handlers\<close>

lemma ends_noexcept:
  assumes "ends m F Q" and "\<And>f. F f \<Longrightarrow> F' (case f of Thrown e \<Rightarrow> StdTerminate file line | _ \<Rightarrow> f)"
  shows "ends (noexcept file line m) F' Q"
proof (cases m)
  case (Inl f)
  with assms(1) have "F f" by simp
  from assms(2) [OF this] Inl show ?thesis by (simp add: noexcept_def split: fault.splits)
qed (use assms(1) in \<open>simp add: ends_def\<close>)

lemma after_flush:
  assumes "effect L False io inst c inst' (Live c')" and "conn_inv L (config inst) c"
    and "state c = READY" and "state c' = READY"
  shows "accounting c' = accounting c" "cancel_ptr c' = cancel_ptr c" "conn_inv L (config inst') c'"
    "ev_IsDefined L (outgoing c)" "initial_packets c' = initial_packets c" "remote_address c' = remote_address c"
  using assms by (auto simp: effect_def live_effect_def conn_inv_def state_inv_def split: if_splits)

lemma READY_incoming:
  assumes ok: "inst_ok inst c" "job_ok inst c" "conn_inv L (config inst) c" "state c = READY"
    and fl: "flags_ok L (incoming c) events" "pool_ok io (flush_incoming L io events inst c)"
  shows "ends (bind_live (flush_incoming L io events inst c)
      (\<lambda>inst c. if has_event events (ev_READ L) then receive_incoming L io inst c else Inr (inst, Live c)))
    (\<lambda>f. \<exists>e. io_stock io = StockCreate (Inl e) \<and> f = Thrown (ErrnoError ''pipe() failed'' e))
    (effect L False io inst c)"
proof -
  let ?m = "flush_incoming L io events inst c"
  let ?Q = "\<lambda>inst' x. effect L False io inst c inst' x \<and>
       (\<forall>c'. x = Live c' \<longrightarrow> quiet inst inst' \<and> state c' = READY \<and>
          ev_IsReadPending L (incoming c') = ev_IsReadPending L (incoming c) \<and>
          stock_answer_ok (io_stock io) (pipe_stock inst'))"
  have "ends ?m (\<lambda>f. False) ?Q"
    using flush_incoming_effect [OF ok fl(1), of io] fl(2)
    by (auto simp: ends_def pool_ok_def split: sum.splits)
  then show ?thesis
  proof (rule ends_bind_live)
    fix inst' c'
    assume Q: "?Q inst' (Live c')"
    note A = after_flush [OF conjunct1 [OF Q] ok(3,4)]
    show "ends (if has_event events (ev_READ L) then receive_incoming L io inst' c' else Inr (inst', Live c'))
        (\<lambda>f. \<exists>e. io_stock io = StockCreate (Inl e) \<and> f = Thrown (ErrnoError ''pipe() failed'' e))
        (effect L False io inst c)"
      using Q A fl(1) ok(4) by (auto simp: flags_ok_def intro!: receive_incoming_effect [OF ok(1,2)])
  qed auto
qed

lemma READY_outgoing:
  assumes ok: "inst_ok inst c" "job_ok inst c" "conn_inv L (config inst) c" "state c = READY"
    and fl: "flags_ok L (outgoing c) events" "pool_ok io (flush_outgoing L io events inst c)"
  shows "ends (bind_live (flush_outgoing L io events inst c)
      (\<lambda>inst c. if has_event events (ev_READ L) then receive_outgoing L io inst c else Inr (inst, Live c)))
    (\<lambda>f. \<exists>e. io_stock io = StockCreate (Inl e) \<and> f = Thrown (ErrnoError ''pipe() failed'' e))
    (effect L False io inst c)"
proof -
  let ?m = "flush_outgoing L io events inst c"
  let ?Q = "\<lambda>inst' x. effect L False io inst c inst' x \<and>
       (\<forall>c'. x = Live c' \<longrightarrow> quiet inst inst' \<and> state c' = READY \<and>
          ev_IsReadPending L (outgoing c') = ev_IsReadPending L (outgoing c) \<and>
          stock_answer_ok (io_stock io) (pipe_stock inst'))"
  have "ends ?m (\<lambda>f. False) ?Q"
    using flush_outgoing_effect [OF ok fl(1), of io] fl(2)
    by (auto simp: ends_def pool_ok_def split: sum.splits)
  then show ?thesis
  proof (rule ends_bind_live)
    fix inst' c'
    assume Q: "?Q inst' (Live c')"
    note A = after_flush [OF conjunct1 [OF Q] ok(3,4)]
    show "ends (if has_event events (ev_READ L) then receive_outgoing L io inst' c' else Inr (inst', Live c'))
        (\<lambda>f. \<exists>e. io_stock io = StockCreate (Inl e) \<and> f = Thrown (ErrnoError ''pipe() failed'' e))
        (effect L False io inst c)"
      using Q A fl(1) ok(4) by (auto simp: flags_ok_def intro!: receive_outgoing_effect [OF ok(1,2)])
  qed auto
qed

lemma OnIncomingReady_effect:
  assumes ok: "inst_ok inst c" "job_ok inst c" "conn_inv L (config inst) c"
    and fl: "flags_ok L (incoming c) events" "pool_ok io (flush_incoming L io events inst c)"
  shows "ends (OnIncomingReady L io events inst c) (known_fault L (IncomingReady io events) c)
    (effect L False io inst c)"
proof (cases "has_event events (ev_DEAD_MASK L)")
  case True
  have "ends (bind_r (if state c = INITIAL then charge L (io_now io) 4 inst c else Inr inst)
      (\<lambda>inst. Destroy L (io_now io) inst c)) (\<lambda>f. False) (effect L False io inst c)"
    by (auto intro!: ends_charge [OF ok(1) quiet_refl [OF ok(1)]] Destroy_now [OF ok] quiet_refl [OF ok(1)])
  then show ?thesis
    unfolding OnIncomingReady_def using True by (auto intro: ends_noexcept)
next
  case False
  then have rw: "has_event events (ev_READ L) \<or> has_event events (ev_WRITE L)"
    "has_event events (ev_READ L) \<Longrightarrow> ev_IsReadPending L (incoming c)"
    "has_event events (ev_WRITE L) \<Longrightarrow> ev_IsWritePending L (incoming c)"
    using fl(1) by (auto simp: flags_ok_def)
  show ?thesis
  proof (cases "state c")
    case INITIAL
    then have "connect c = []" "has_event events (ev_READ L)"
      using ok(3) rw by (auto simp: conn_inv_def state_inv_def no_server_def)
    with INITIAL False ReceiveLoginPackets_effect [OF ok INITIAL, of io] show ?thesis
      unfolding OnIncomingReady_def by (auto intro: ends_noexcept)
  next
    case CHECK_CREDENTIALS
    with ok(3) rw show ?thesis by (auto simp: conn_inv_def state_inv_def no_server_def)
  next
    case SERVER_LIST
    then have "connect c = []" "has_event events (ev_READ L)"
      using ok(3) rw by (auto simp: conn_inv_def state_inv_def no_server_def)
    with SERVER_LIST False ReceivePlayServer_effect [OF ok SERVER_LIST, of io] show ?thesis
      unfolding OnIncomingReady_def by (auto intro: ends_noexcept)
  next
    case CONNECTING
    with ok(3) rw False show ?thesis
      by (auto simp: OnIncomingReady_def known_fault_def noexcept_def conn_inv_def state_inv_def no_server_def)
  next
    case SEND_PLAY_SERVER
    with ok(3) rw show ?thesis by (auto simp: conn_inv_def state_inv_def)
  next
    case READY
    then have "\<not> connect_IsPending L (connect c)"
      using ok(3) by (auto simp: conn_inv_def state_inv_def)
    with READY False show ?thesis
      unfolding OnIncomingReady_def
      by (auto simp: known_fault_def intro!: ends_noexcept [OF READY_incoming [OF ok READY fl]])
  qed
qed

lemma ReceiveServerList_effect:
  assumes ok: "inst_ok inst c" "job_ok inst c" "conn_inv L (config inst) c" and "state c = SEND_PLAY_SERVER"
  shows "ends (ReceiveServerList L io inst c) (\<lambda>f. False) (effect L False io inst c)"
proof -
  note destroy = Destroy_now [OF ok _ _ _ _ _ quiet_refl [OF ok(1)]]
  have live: "effect L False io inst c inst
      (Live (c\<lparr>outgoing := sock_send r bs (outgoing c), incoming := EvScheduleRead # incoming c, state := READY\<rparr>))" for r bs
    using ok assms(4)
    by (auto simp: conn_inv_def state_inv_def idle_splices_def dir_inv_def splice_inv_new new_Splice_size past_check_def
        intro!: live_effect_quiet quiet_refl [OF ok(1)])
  show ?thesis
    by (auto simp: ReceiveServerList_def Let_def live intro!: destroy split: read_result.split)
qed

lemma OnOutgoingReady_effect:
  assumes ok: "inst_ok inst c" "job_ok inst c" "conn_inv L (config inst) c"
    and fl: "flags_ok L (outgoing c) events" "pool_ok io (flush_outgoing L io events inst c)"
  shows "ends (OnOutgoingReady L io events inst c) (known_fault L (OutgoingReady io events) c)
    (effect L False io inst c)"
proof -
  have st: "state c = SEND_PLAY_SERVER \<or> state c = READY" "ev_IsDefined L (incoming c)"
    "\<not> connect_IsPending L (connect c)"
    using ok(3) fl(1)
    by (auto simp: conn_inv_def state_inv_def no_server_def flags_ok_def split: State.splits)
  show ?thesis
  proof (cases "has_event events (ev_DEAD_MASK L)")
    case True
    have "ends (bind_r (charge L (io_now io) 5 inst c) (\<lambda>inst. Destroy L (io_now io) inst c))
        (\<lambda>f. False) (effect L False io inst c)"
      by (auto intro!: ends_charge [OF ok(1) quiet_refl [OF ok(1)]] Destroy_now [OF ok])
    with True st show ?thesis unfolding OnOutgoingReady_def by (auto intro: ends_noexcept)
  next
    case False
    show ?thesis
    proof (cases "state c = READY")
      case True
      with False st show ?thesis
        unfolding OnOutgoingReady_def
        by (auto simp: known_fault_def intro!: ends_noexcept [OF READY_outgoing [OF ok True fl]])
    next
      case play: False
      with st have "state c = SEND_PLAY_SERVER" by blast
      with False st ReceiveServerList_effect [OF ok this, of io] show ?thesis
        unfolding OnOutgoingReady_def by (auto intro: ends_noexcept)
    qed
  qed
qed

lemma OnTimeout_effect:
  assumes ok: "inst_ok inst c" "job_ok inst c" "conn_inv L (config inst) c"
  shows "ends (OnTimeout L io inst c) (\<lambda>f. False) (effect L False io inst c)"
  unfolding OnTimeout_def Let_def
  by (auto intro!: ends_charge [OF ok(1) quiet_refl [OF ok(1)]] Destroy_now [OF ok])

lemma OnSocketConnectSuccess_effect:
  assumes ok: "inst_ok inst c" "job_ok inst c" "conn_inv L (config inst) c"
    and "connect_IsPending L (connect c)"
  shows "ends (OnSocketConnectSuccess L io fd inst c) (\<lambda>f. False) (effect L False io inst c)"
proof -
  have st: "state c = CONNECTING"
    using ok(3) assms(4) by (auto simp: conn_inv_def state_inv_def split: State.splits)
  then have c: "unat (initial_packets_fill c) = 83" "outgoing c = []" "cancel_ptr c = None"
    using ok(3) by (auto simp: conn_inv_def state_inv_def no_server_def)
  show ?thesis
  proof (cases "io_send io > 0")
    case False
    with st c show ?thesis
      by (auto simp: OnSocketConnectSuccess_def SendInitialPackets_def Let_def
          intro!: Destroy_now [OF ok] quiet_refl [OF ok(1)])
  next
    case True
    with st c ok show ?thesis
      by (auto simp: OnSocketConnectSuccess_def SendInitialPackets_def Let_def conn_inv_def state_inv_def
          no_server_def idle_splices_def dir_inv_def splice_inv_new new_Splice_size past_check_def server_count_def
          intro!: live_effectI [OF _ _ quiet_refl [OF ok(1)] refl])
  qed
qed

lemma OnSocketConnectError_effect:
  assumes ok: "inst_ok inst c" "job_ok inst c" "conn_inv L (config inst) c"
    and "connect_IsPending L (connect c)"
  shows "ends (OnSocketConnectError L io inst c) (\<lambda>f. False) (effect L False io inst c)"
proof -
  have "state c = CONNECTING"
    using ok(3) assms(4) by (auto simp: conn_inv_def state_inv_def split: State.splits)
  then show ?thesis
    by (auto simp: OnSocketConnectError_def Let_def intro!: Destroy_now [OF ok] quiet_updates quiet_refl [OF ok(1)])
qed

lemma OnCheckCredentials_event:
  assumes ok: "inst_ok inst c" "conn_inv L (config inst) c" and "cancel_ptr c \<noteq> None"
  shows "ends (OnCheckCredentials L io user r inst c) (\<lambda>f. False) (effect L True io inst c)"
proof -
  have "state c = CHECK_CREDENTIALS" using ok(2) assms(3) by (simp add: conn_inv_def)
  then show ?thesis
    using ok
    by (intro OnCheckCredentials_effect [OF ok(1) quiet_refl [OF ok(1)]])
      (auto simp: conn_inv_def state_inv_def logged_def no_server_def)
qed

lemma conn_handle_effect:
  assumes "inst_ok inst c" and "conn_inv L (config inst) c" and "is_Checked e \<or> job_ok inst c"
    and "deliverable L e c" and "io_ok L e inst c"
  shows "ends (conn_handle L e inst c) (known_fault L e c)
    (effect L (is_Checked e) (event_io e) inst c)"
proof (cases e)
  case (IncomingReady io events)
  with assms OnIncomingReady_effect [of inst c events io] show ?thesis by auto
next
  case (OutgoingReady io events)
  with assms OnOutgoingReady_effect [of inst c events io] show ?thesis by auto
next
  case (Timeout io)
  with assms ends_weaken [OF OnTimeout_effect [of inst c io]] show ?thesis by auto
next
  case (Checked io user r)
  with assms ends_weaken [OF OnCheckCredentials_event [of inst c io user r]] show ?thesis by auto
next
  case (Connected io fd)
  with assms ends_weaken [OF OnSocketConnectSuccess_effect [of inst c io fd]] show ?thesis by auto
next
  case (ConnectFailed io)
  with assms ends_weaken [OF OnSocketConnectError_effect [of inst c io]] show ?thesis by auto
qed

end

end
