(* ===== verification/System_Safety.thy ===== *)
theory System_Safety
  imports System_Model Connection_Safety "HOL-Library.Multiset"
begin

text \<open>
  The invariant of the whole daemon and its preservation by every event: the client
  accounting, the job queue, the counters and the connections agree with each other.
  The invariant is stated for an instance together with the list of all connections
  and the list of all delayed connections, whatever listener they belong to.
\<close>

section \<open>Jobs and their owners\<close>

text \<open>The job whose result a connection waits for.\<close>

definition linked :: "lib \<Rightarrow> Connection \<Rightarrow> callback CheckCredentialsJob \<Rightarrow> bool" where
  "linked L c j \<longleftrightarrow>
     cancel_ptr c = Some (job_id j) \<and> \<not> job_canceled j \<and>
     job_callback j = CbConnection (acc_id (accounting c)) \<and>
     job_username j = conn_user L c \<and> job_password j = conn_pass L c"

definition jobs_inv :: "lib \<Rightarrow> callback job_queue \<Rightarrow> nat \<Rightarrow> Connection list \<Rightarrow> bool" where
  "jobs_inv L q n cs \<longleftrightarrow>
     distinct (map job_id q) \<and> (\<forall>j \<in> set q. job_id j < n) \<and>
     (\<forall>c \<in> set cs. cancel_ptr c \<noteq> None \<longrightarrow> (\<exists>j \<in> set q. linked L c j)) \<and>
     (\<forall>j \<in> set q. \<forall>k. \<not> job_canceled j \<and> job_callback j = CbConnection k \<longrightarrow> (\<exists>c \<in> set cs. linked L c j))"

definition conn_ids :: "Connection list \<Rightarrow> nat list" where
  "conn_ids cs = map (\<lambda>c. acc_id (accounting c)) cs"

lemma conn_ids_Cons [simp]: "conn_ids (c # cs) = acc_id (accounting c) # conn_ids cs"
  by (simp add: conn_ids_def)

lemma set_conn_ids: "set (conn_ids cs) = (\<lambda>c. acc_id (accounting c)) ` set cs"
  by (simp add: conn_ids_def)

lemma linked_cong:
  assumes "cancel_ptr c' = cancel_ptr c" and "accounting c' = accounting c"
    and "cancel_ptr c \<noteq> None \<Longrightarrow> initial_packets c' = initial_packets c"
  shows "linked L c' j = linked L c j"
  using assms by (auto simp: linked_def conn_user_def conn_pass_def)

lemma linked_owner:
  "linked L c j \<Longrightarrow> linked L d j \<Longrightarrow> acc_id (accounting c) = acc_id (accounting d)"
  by (simp add: linked_def)

lemma linked_queued_job: "cancel_ptr c = Some i \<Longrightarrow> linked L c (queued_job L c i)"
  by (simp add: linked_def queued_job_def new_CheckCredentialsJob_def conn_user_def conn_pass_def Let_def)

lemma queued_job_simps [simp]:
  "job_id (queued_job L c i) = i" "\<not> job_canceled (queued_job L c i)"
  "job_callback (queued_job L c i) = CbConnection (acc_id (accounting c))"
  "\<not> job_result (queued_job L c i)"
  by (simp_all add: queued_job_def new_CheckCredentialsJob_def Let_def)

lemma jobs_inv_find:
  assumes "jobs_inv L q n cs" and "j \<in> set q"
  shows "find_job (job_id j) q = Some j"
proof -
  obtain k where k: "find_job (job_id j) q = Some k"
    using assms(2) by (cases "find_job (job_id j) q") (auto simp: find_job_def find_None_iff)
  from find_job_id [OF this] assms have "k = j"
    by (auto simp: jobs_inv_def distinct_map inj_on_def)
  with k show ?thesis by simp
qed

text \<open>A change of the connection that its job does not notice.\<close>

lemma jobs_inv_same:
  assumes "jobs_inv L q n (c # cs)" and "cancel_ptr c' = cancel_ptr c" and "accounting c' = accounting c"
    and "cancel_ptr c \<noteq> None \<Longrightarrow> initial_packets c' = initial_packets c"
  shows "jobs_inv L q n (c' # cs)"
  using assms(1,2) linked_cong [OF assms(2-4)] by (simp add: jobs_inv_def)

lemma jobs_inv_new:
  assumes "jobs_inv L q n cs" and "cancel_ptr c = None"
  shows "jobs_inv L q n (c # cs)"
  using assms by (auto simp: jobs_inv_def)

lemma jobs_inv_mono: "jobs_inv L q n cs \<Longrightarrow> n \<le> n' \<Longrightarrow> jobs_inv L q n' cs"
  by (auto simp: jobs_inv_def)

lemma jobs_inv_queue:
  assumes "jobs_inv L q n (c # cs)" and "cancel_ptr c = None" and "cancel_ptr c' = Some n"
  shows "jobs_inv L (queue_Add (queued_job L c' n) q) (n + 1) (c' # cs)"
proof -
  have "\<not> linked L c j" for j using assms(2) by (simp add: linked_def)
  then show ?thesis
    using assms(1) linked_queued_job [OF assms(3)]
    unfolding jobs_inv_def queue_Add_def by auto
qed

text \<open>
  A connection gives up its job: the job is deleted, or marked as cancelled.
\<close>

lemma linked_unique:
  assumes "jobs_inv L q n (c # cs)" and "distinct (conn_ids (c # cs))"
    and "cancel_ptr c = Some i" and "d \<in> set cs" and "k \<in> set q" and "linked L d k"
  shows "job_id k \<noteq> i"
proof
  assume k: "job_id k = i"
  from assms(1,3) obtain j where j: "j \<in> set q" "linked L c j" by (auto simp: jobs_inv_def)
  with k assms(1,3,5) have "k = j" by (auto simp: jobs_inv_def distinct_map inj_on_def linked_def)
  with linked_owner [OF j(2)] assms(2,4,6) show False by (auto simp: set_conn_ids)
qed

lemma jobs_inv_delete:
  assumes "jobs_inv L q n (c # cs)" and "distinct (conn_ids (c # cs))" and "cancel_ptr c = Some i"
  shows "jobs_inv L (delete_job i q) n cs"
proof -
  have "distinct (map job_id (delete_job i q))" "\<forall>j \<in> set (delete_job i q). job_id j < n"
    using assms(1) by (auto simp: jobs_inv_def delete_job_def distinct_map_filter)
  moreover have "\<exists>j \<in> set (delete_job i q). linked L d j" if "d \<in> set cs" "cancel_ptr d \<noteq> None" for d
    using assms(1) linked_unique [OF assms that(1)] that by (fastforce simp: jobs_inv_def delete_job_def)
  moreover have "\<exists>d \<in> set cs. linked L d j"
    if "j \<in> set (delete_job i q)" "\<not> job_canceled j" "job_callback j = CbConnection k" for j k
  proof -
    from that(1) have j: "j \<in> set q" "job_id j \<noteq> i" by (auto simp: delete_job_def)
    then have "\<not> linked L c j" using assms(3) by (simp add: linked_def)
    with j(1) that(2,3) assms(1) show ?thesis by (auto simp: jobs_inv_def)
  qed
  ultimately show ?thesis unfolding jobs_inv_def by blast
qed

lemma jobs_inv_mark:
  assumes "jobs_inv L q n (c # cs)" and "distinct (conn_ids (c # cs))" and "cancel_ptr c = Some i"
    and "find_job i q = Some j"
  shows "jobs_inv L (set_job (j\<lparr>job_canceled := True\<rparr>) q) n cs"
proof -
  let ?q = "set_job (j\<lparr>job_canceled := True\<rparr>) q"
  have j: "job_id j = i" "j \<in> set q" using find_job_id [OF assms(4)] by auto
  have mem: "k \<in> set ?q \<longleftrightarrow> k \<in> set q \<and> job_id k \<noteq> i \<or> k = j\<lparr>job_canceled := True\<rparr>" for k
    using j by (auto simp: set_job_def)
  have "distinct (map job_id ?q)" "\<forall>k \<in> set ?q. job_id k < n"
    using assms(1) j by (auto simp: jobs_inv_def mem simp del: set_job_ids simp: set_job_ids [of "j\<lparr>job_canceled := True\<rparr>" q])
  moreover have "\<exists>k \<in> set ?q. linked L d k" if "d \<in> set cs" "cancel_ptr d \<noteq> None" for d
  proof -
    from assms(1) that obtain k where k: "k \<in> set q" "linked L d k" by (auto simp: jobs_inv_def)
    from linked_unique [OF assms(1-3) that(1) this] k mem show ?thesis by blast
  qed
  moreover have "\<exists>d \<in> set cs. linked L d k"
    if "k \<in> set ?q" "\<not> job_canceled k" "job_callback k = CbConnection m" for k m
  proof -
    from that(1,2) mem have k: "k \<in> set q" "job_id k \<noteq> i" by auto
    then have "\<not> linked L c k" using assms(3) by (simp add: linked_def)
    with k(1) that(2,3) assms(1) show ?thesis by (auto simp: jobs_inv_def)
  qed
  ultimately show ?thesis unfolding jobs_inv_def by blast
qed

lemma jobs_inv_drop:
  assumes "jobs_inv L q n (c # cs)" and "distinct (conn_ids (c # cs))"
    and "(case cancel_ptr c of None \<Rightarrow> Inr q | Some j \<Rightarrow> job_Cancel L j q) = Inr q'"
  shows "jobs_inv L q' n cs"
proof (cases "cancel_ptr c")
  case None
  then have "\<not> linked L c j" for j by (simp add: linked_def)
  with None assms(1,3) show ?thesis by (auto simp: jobs_inv_def)
next
  case (Some i)
  with assms(3) show ?thesis
    using jobs_inv_delete [OF assms(1,2) Some] jobs_inv_mark [OF assms(1,2) Some]
    by (auto simp: job_Cancel_def split: option.splits if_splits)
qed

text \<open>A job that a worker takes or runs.\<close>

lemma jobs_inv_update:
  assumes "jobs_inv L q n cs" and "find_job (job_id j') q = Some j"
    and "job_canceled j' = job_canceled j" and "job_callback j' = job_callback j"
    and "job_username j' = job_username j" and "job_password j' = job_password j"
  shows "jobs_inv L (set_job j' q) n cs"
proof -
  have j: "job_id j = job_id j'" "j \<in> set q" using find_job_id [OF assms(2)] by auto
  have mem: "k \<in> set (set_job j' q) \<longleftrightarrow> k \<in> set q \<and> job_id k \<noteq> job_id j' \<or> k = j'" for k
    using j by (auto simp: set_job_def)
  have link: "linked L c j' = linked L c j" for c using assms(3-6) j by (simp add: linked_def)
  have uniq: "k = j" if "k \<in> set q" "job_id k = job_id j'" for k
    using that j assms(1) by (auto simp: jobs_inv_def distinct_map inj_on_def)
  have "\<exists>k \<in> set (set_job j' q). linked L c k" if c: "c \<in> set cs" "cancel_ptr c \<noteq> None" for c
  proof -
    from assms(1) c obtain k where k: "k \<in> set q" "linked L c k" by (auto simp: jobs_inv_def)
    with uniq link mem show ?thesis by metis
  qed
  moreover have "\<exists>c \<in> set cs. linked L c k"
    if "k \<in> set (set_job j' q)" "\<not> job_canceled k" "job_callback k = CbConnection m" for k m
    using that assms(1,3,4) j link by (auto simp: jobs_inv_def mem)
  moreover have "\<forall>k \<in> set (set_job j' q). job_id k < n"
    using assms(1) j unfolding jobs_inv_def by (metis mem)
  ultimately show ?thesis using assms(1) unfolding jobs_inv_def by auto
qed

lemma jobs_inv_delete_other:
  assumes "jobs_inv L q n cs" and "find_job i q = Some j"
    and "job_canceled j \<or> (\<forall>k. job_callback j \<noteq> CbConnection k)"
  shows "jobs_inv L (delete_job i q) n cs"
proof -
  have j: "job_id j = i" "j \<in> set q" using find_job_id [OF assms(2)] by auto
  have uniq: "k = j" if "k \<in> set q" "job_id k = i" for k
    using that j assms(1) by (auto simp: jobs_inv_def distinct_map inj_on_def)
  have "\<exists>k \<in> set (delete_job i q). linked L c k" if c: "c \<in> set cs" "cancel_ptr c \<noteq> None" for c
  proof -
    from assms(1) c obtain k where k: "k \<in> set q" "linked L c k" by (auto simp: jobs_inv_def)
    with uniq assms(3) have "job_id k \<noteq> i" by (auto simp: linked_def)
    with k show ?thesis by (auto simp: delete_job_def)
  qed
  then show ?thesis using assms(1) by (auto simp: jobs_inv_def delete_job_def distinct_map_filter)
qed

section \<open>Accounting and counters\<close>

definition accs :: "Connection list \<Rightarrow> DelayedConnection list \<Rightarrow> AccountedClientConnection list" where
  "accs cs ds = map accounting cs @ map dc_accounting ds"

definition accs_inv :: "ClientAccountingMap \<Rightarrow> nat \<Rightarrow> AccountedClientConnection list \<Rightarrow> bool" where
  "accs_inv m n as \<longleftrightarrow>
     wf_map m \<and> max_connections m = 16 \<and> registered as (registry m) \<and> (\<forall>a \<in> set as. acc_id a < n)"

text \<open>No client has more connections than the limit.\<close>

definition within_limit :: "ClientAccountingMap \<Rightarrow> bool" where
  "within_limit m \<longleftrightarrow> (\<forall>k xs. registry m k = Some xs \<longrightarrow> length xs \<le> 16)"

definition count_inv :: "lib \<Rightarrow> Metrics \<Rightarrow> Connection list \<Rightarrow> bool" where
  "count_inv L ms cs \<longleftrightarrow>
     client_connections ms = of_nat (length cs) \<and>
     server_connections ms = sum_list (map (server_count L) cs)"

lemma accs_inv_perm: "accs_inv m n as \<Longrightarrow> mset bs = mset as \<Longrightarrow> accs_inv m n bs"
proof -
  assume inv: "accs_inv m n as" and perm: "mset bs = mset as"
  have "distinct (map acc_id bs)"
    using inv perm mset_eq_imp_distinct_iff [of "map acc_id bs" "map acc_id as"]
    by (simp add: accs_inv_def registered_def)
  with inv mset_eq_setD [OF perm] registered_mset show ?thesis by (auto simp: accs_inv_def)
qed

lemma accs_inv_mono: "accs_inv m n as \<Longrightarrow> n \<le> n' \<Longrightarrow> accs_inv m n' as"
  by (auto simp: accs_inv_def)

lemma accs_inv_registry:
  assumes "accs_inv m n as" and "wf_map m'" and "registry m' = registry m" and "max_connections m' = max_connections m"
  shows "accs_inv m' n as"
  using assms by (simp add: accs_inv_def)

lemma accs_inv_charge:
  assumes "accs_inv m n as" and "find_entry k m \<noteq> None"
  shows "\<exists>m'. Map_UpdateTokenBucket L now sz k m = Inr m' \<and> accs_inv m' n as \<and> registry m' = registry m \<and>
    max_connections m' = max_connections m \<and> find_entry k m' \<noteq> None"
proof -
  from assms(2) obtain pc where pc: "find_entry k m = Some pc" by auto
  from Map_UpdateTokenBucket_ok [OF _ pc, of L now sz] assms(1) obtain m' where
    m': "Map_UpdateTokenBucket L now sz k m = Inr m'" "wf_map m'" "registry m' = registry m"
    by (auto simp: accs_inv_def)
  then have mc: "max_connections m' = max_connections m"
    by (auto simp: Map_UpdateTokenBucket_def split: option.splits)
  have "find_entry k m' \<noteq> None"
    using fun_cong [OF m'(3), of k] pc by (auto simp: registry_def)
  with m' mc accs_inv_registry [OF assms(1) m'(2,3) mc] show ?thesis by blast
qed

lemma accs_inv_knock:
  assumes "accs_inv m n as" and "find_entry k m \<noteq> None"
  shows "\<exists>m'. Map_SetKnocked k m = Inr m' \<and> accs_inv m' n as \<and> registry m' = registry m"
proof -
  from assms(2) obtain pc where pc: "find_entry k m = Some pc" by auto
  from Map_SetKnocked_ok [OF _ pc] assms(1) obtain m' where
    m': "Map_SetKnocked k m = Inr m'" "wf_map m'" "registry m' = registry m"
    by (auto simp: accs_inv_def)
  then have "max_connections m' = max_connections m"
    by (auto simp: Map_SetKnocked_def split: option.splits)
  with m' accs_inv_registry [OF assms(1) m'(2,3)] show ?thesis by blast
qed

lemma accs_inv_get:
  assumes "accs_inv m n as"
  shows "accs_inv (snd (ClientAccountingMap_Get L a m)) n as"
    and "fst (ClientAccountingMap_Get L a m) = Some k \<Longrightarrow> find_entry k (snd (ClientAccountingMap_Get L a m)) \<noteq> None"
proof -
  let ?m = "snd (ClientAccountingMap_Get L a m)"
  have "max_connections ?m = max_connections m"
    by (simp add: ClientAccountingMap_Get_def Let_def split: option.split)
  then show "accs_inv ?m n as"
    using assms acct.registered_get [of as m L a] wf_map_Get [of m L a] by (simp add: accs_inv_def)
  show "find_entry k ?m \<noteq> None" if "fst (ClientAccountingMap_Get L a m) = Some k"
    using that by (auto simp: ClientAccountingMap_Get_def Let_def find_entry_def new_PerClientAccounting_def
        split: option.splits if_splits)
qed

lemma within_limit_get: "within_limit m \<Longrightarrow> within_limit (snd (ClientAccountingMap_Get L a m))"
  unfolding within_limit_def registry_Get by (auto split: option.splits if_splits)

lemma accs_inv_add:
  assumes "accs_inv m n as" and "find_entry k m \<noteq> None"
  obtains m' xs where "PerClient_AddConnection k (new_AccountedClientConnection n) m =
      Inr (m', (new_AccountedClientConnection n)\<lparr>acc_per_client := Some k\<rparr>)"
    "accs_inv m' (n + 1) ((new_AccountedClientConnection n)\<lparr>acc_per_client := Some k\<rparr> # as)"
    "registry m k = Some xs" "registry m' = (registry m)(k \<mapsto> xs @ [n])"
proof -
  let ?c = "new_AccountedClientConnection n"
  have c: "acc_per_client ?c = None" "acc_id ?c = n" by (simp_all add: new_AccountedClientConnection_def)
  have "n \<notin> acc_id ` set as" using assms(1) by (auto simp: accs_inv_def)
  moreover have "k \<in> dom (registry m)" using assms(2) by (auto simp: registry_def)
  ultimately obtain m' xs where m':
    "PerClient_AddConnection k ?c m = Inr (m', ?c\<lparr>acc_per_client := Some k\<rparr>)" "wf_map m'"
    "registered (?c\<lparr>acc_per_client := Some k\<rparr> # as) (registry m')"
    "registry m k = Some xs" "registry m' = (registry m)(k \<mapsto> xs @ [n])"
    using acct.registered_add [of m as k ?c] assms(1) c by (auto simp: accs_inv_def)
  moreover have "max_connections m' = max_connections m"
    using m'(1) by (auto simp: PerClient_AddConnection_def res_simps split: option.splits)
  ultimately show thesis
    using assms(1) c by (intro that [OF m'(1) _ m'(4,5)]) (auto simp: accs_inv_def)
qed

lemma accs_inv_release:
  assumes "accs_inv m n (a # as)"
  obtains m' where "Accounted_destroy L now a m = Inr m'" "accs_inv m' n as"
    "within_limit m \<Longrightarrow> within_limit m'"
    "\<And>k xs. acc_per_client a = Some k \<Longrightarrow> registry m k = Some xs \<Longrightarrow>
       registry m' = (registry m)(k \<mapsto> remove1 (acc_id a) xs)"
proof -
  from acct.registered_release [of m a as L now] assms obtain m' where
    m': "Accounted_destroy L now a m = Inr m'" "wf_map m'" "registered as (registry m')"
    by (auto simp: accs_inv_def)
  have mc: "max_connections m' = max_connections m"
    using m'(1) by (auto simp: Accounted_destroy_def PerClient_RemoveConnection_def res_simps Let_def
        split: option.splits if_splits)
  have reg: "registry m' = (registry m)(k \<mapsto> remove1 (acc_id a) xs)"
    if "acc_per_client a = Some k" "registry m k = Some xs" for k xs
    using Accounted_destroy_ok [OF _ that, of L now] assms m'(1) by (auto simp: accs_inv_def)
  have "within_limit m'" if lim: "within_limit m"
  proof (cases "acc_per_client a")
    case None
    with m'(1) lim show ?thesis by (simp add: Accounted_destroy_def)
  next
    case (Some k)
    moreover from Some assms obtain xs where "registry m k = Some xs"
      using registered_pointer [of "a # as" "registry m" a k] by (auto simp: accs_inv_def)
    moreover have "length (remove1 (acc_id a) xs) \<le> length xs" by (simp add: length_remove1)
    ultimately show ?thesis using lim reg by (fastforce simp: within_limit_def)
  qed
  with m' mc reg assms show thesis by (intro that [OF m'(1)]) (auto simp: accs_inv_def)
qed

lemma accs_inv_cleanup:
  assumes "accs_inv m n as"
  shows "accs_inv (OnCleanupTimer L now m) n as" and "within_limit m \<Longrightarrow> within_limit (OnCleanupTimer L now m)"
proof -
  have "max_connections (OnCleanupTimer L now m) = max_connections m"
    by (simp add: OnCleanupTimer_def Let_def)
  then show "accs_inv (OnCleanupTimer L now m) n as"
    using assms acct.registered_cleanup [of m as L now] wf_map_OnCleanupTimer by (simp add: accs_inv_def)
  show "within_limit (OnCleanupTimer L now m)" if "within_limit m"
    using that registry_OnCleanupTimer [of m L now] assms
    unfolding within_limit_def accs_inv_def by (metis option.distinct(1))
qed

section \<open>Knock requests\<close>

text \<open>
  Every waiting knock request is the owner of one job, which is never cancelled, and its address
  has an accounting key.
\<close>

fun request_of :: "callback \<Rightarrow> nat option" where
  "request_of (CbKnock r a st) = Some r"
| "request_of (CbConnection k) = None"

fun keyed :: "lib \<Rightarrow> callback \<Rightarrow> bool" where
  "keyed L (CbKnock r a st) = (ToInteger L a \<noteq> 0)"
| "keyed L (CbConnection k) = True"

definition one_job :: "callback job_queue \<Rightarrow> bool" where
  "one_job q \<longleftrightarrow>
     (\<forall>j \<in> set q. \<forall>k \<in> set q. \<forall>r. request_of (job_callback j) = Some r \<longrightarrow>
        request_of (job_callback k) = Some r \<longrightarrow> job_id j = job_id k)"

definition knocks_inv :: "lib \<Rightarrow> callback job_queue \<Rightarrow> nat \<Rightarrow> nat list \<Rightarrow> bool" where
  "knocks_inv L q n rs \<longleftrightarrow>
     distinct rs \<and> (\<forall>r \<in> set rs. r < n) \<and>
     (\<forall>j \<in> set q. keyed L (job_callback j) \<and> set_option (request_of (job_callback j)) \<subseteq> set rs) \<and>
     one_job q"

lemma one_jobD:
  "one_job q \<Longrightarrow> j \<in> set q \<Longrightarrow> k \<in> set q \<Longrightarrow> request_of (job_callback j) = Some r \<Longrightarrow>
   request_of (job_callback k) = Some r \<Longrightarrow> job_id j = job_id k"
  unfolding one_job_def by blast

lemma knocks_inv_mono: "knocks_inv L q n rs \<Longrightarrow> n \<le> n' \<Longrightarrow> knocks_inv L q n' rs"
  by (auto simp: knocks_inv_def)

lemma knocks_inv_subset:
  assumes "knocks_inv L q n rs"
    and "\<And>j. j \<in> set q' \<Longrightarrow> \<exists>k \<in> set q. job_id j = job_id k \<and> job_callback j = job_callback k"
  shows "knocks_inv L q' n rs"
proof -
  have "keyed L (job_callback j) \<and> set_option (request_of (job_callback j)) \<subseteq> set rs" if "j \<in> set q'" for j
    using assms(2) [OF that] assms(1) by (auto simp: knocks_inv_def)
  moreover have "one_job q'"
    unfolding one_job_def
  proof (intro ballI allI impI)
    fix j k r
    assume a: "j \<in> set q'" "k \<in> set q'" "request_of (job_callback j) = Some r"
      "request_of (job_callback k) = Some r"
    from assms(1) have "one_job q" by (simp add: knocks_inv_def)
    with assms(2) [OF a(1)] assms(2) [OF a(2)] a(3,4) show "job_id j = job_id k"
      by (auto dest: one_jobD)
  qed
  ultimately show ?thesis using assms(1) unfolding knocks_inv_def by blast
qed

lemma knocks_inv_delete: "knocks_inv L q n rs \<Longrightarrow> knocks_inv L (delete_job i q) n rs"
  by (rule knocks_inv_subset) (auto simp: delete_job_def)

lemma one_job_add:
  assumes "one_job q" and "\<And>k r. k \<in> set q \<Longrightarrow> request_of (job_callback j) = Some r \<Longrightarrow>
    request_of (job_callback k) \<noteq> Some r"
  shows "one_job (queue_Add j q)"
  unfolding one_job_def
proof (intro ballI allI impI)
  fix x y r
  assume a: "x \<in> set (queue_Add j q)" "y \<in> set (queue_Add j q)"
    "request_of (job_callback x) = Some r" "request_of (job_callback y) = Some r"
  then have "x \<in> set q \<or> x = j" "y \<in> set q \<or> y = j" by (auto simp: queue_Add_def)
  with a(3,4) assms(2) [of x r] assms(2) [of y r] one_jobD [OF assms(1), of x y r]
  show "job_id x = job_id y" by auto
qed

lemma knocks_inv_queue_conn:
  assumes "knocks_inv L q n rs" and "job_callback j = CbConnection k"
  shows "knocks_inv L (queue_Add j q) n rs"
proof -
  have "one_job (queue_Add j q)"
    using assms by (intro one_job_add) (simp_all add: knocks_inv_def)
  with assms show ?thesis by (simp add: knocks_inv_def queue_Add_def)
qed

lemma knocks_inv_queue_knock:
  assumes "knocks_inv L q n rs" and "ToInteger L a \<noteq> 0" and "job_callback j = CbKnock n a st"
  shows "knocks_inv L (queue_Add j q) (n + 2) (n # rs)"
proof -
  have n: "n \<notin> set rs" using assms(1) unfolding knocks_inv_def by blast
  have old: "set_option (request_of (job_callback k)) \<subseteq> set rs" if "k \<in> set q" for k
    using assms(1) that by (simp add: knocks_inv_def)
  have "one_job (queue_Add j q)"
  proof (rule one_job_add)
    show "one_job q" using assms(1) by (simp add: knocks_inv_def)
    fix k r
    assume "k \<in> set q" and "request_of (job_callback j) = Some r"
    with assms(3) old [of k] n show "request_of (job_callback k) \<noteq> Some r" by auto
  qed
  with n old assms show ?thesis
    unfolding knocks_inv_def by (auto simp: queue_Add_def less_Suc_eq)
qed

text \<open>A request that is deleted after its job.\<close>

lemma knocks_inv_done:
  assumes "knocks_inv L q n rs" and "find_job i q = Some j" and "job_callback j = CbKnock r a st"
  shows "knocks_inv L (delete_job i q) n (remove1 r rs)"
proof -
  have j: "job_id j = i" "j \<in> set q" using find_job_id [OF assms(2)] by auto
  have one: "one_job q" "distinct rs" using assms(1) by (simp_all add: knocks_inv_def)
  have "set_option (request_of (job_callback k)) \<subseteq> set (remove1 r rs)" if k: "k \<in> set (delete_job i q)" for k
  proof -
    from k have k: "k \<in> set q" "job_id k \<noteq> i" by (auto simp: delete_job_def)
    with one_jobD [OF one(1) j(2) k(1), of r] j assms(3) have "request_of (job_callback k) \<noteq> Some r" by auto
    moreover have "set_option (request_of (job_callback k)) \<subseteq> set rs"
      using assms(1) k(1) by (simp add: knocks_inv_def)
    ultimately show ?thesis using one(2) by (auto simp: set_remove1_eq)
  qed
  with knocks_inv_delete [OF assms(1), of i] one(2) show ?thesis
    by (auto simp: knocks_inv_def set_remove1_eq)
qed

section \<open>The invariant of the daemon\<close>

definition db_ok :: "Instance \<Rightarrow> bool" where
  "db_ok inst \<longleftrightarrow>
     db_inv (database inst) \<and>
     auto_reload (database inst) = auto_reload_user_database (config inst) \<and>
     db_path (database inst) =
       (if user_database (config inst) = [] then None else Some (user_database (config inst)))"

definition world_inv :: "lib \<Rightarrow> Instance \<Rightarrow> Connection list \<Rightarrow> DelayedConnection list \<Rightarrow> bool" where
  "world_inv L inst cs ds \<longleftrightarrow>
     accs_inv (client_accounting inst) (next_id inst) (accs cs ds) \<and>
     jobs_inv L (jobs inst) (next_id inst) cs \<and>
     knocks_inv L (jobs inst) (next_id inst) (knock_requests inst) \<and>
     count_inv L (metrics inst) cs \<and>
     (\<forall>c \<in> set cs. conn_inv L (config inst) c) \<and>
     db_ok inst \<and> stock_clean (pipe_stock inst)"

lemma world_parts:
  assumes "world_inv L inst cs ds"
  shows "accs_inv (client_accounting inst) (next_id inst) (accs cs ds)"
    and "jobs_inv L (jobs inst) (next_id inst) cs"
    and "knocks_inv L (jobs inst) (next_id inst) (knock_requests inst)"
    and "count_inv L (metrics inst) cs" and "\<And>c. c \<in> set cs \<Longrightarrow> conn_inv L (config inst) c"
    and "db_ok inst" and "stock_clean (pipe_stock inst)"
  using assms by (simp_all add: world_inv_def)

lemma world_perm:
  assumes "world_inv L inst cs ds" and "mset cs' = mset cs" and "mset ds' = mset ds"
  shows "world_inv L inst cs' ds'"
proof -
  have "mset (accs cs' ds') = mset (accs cs ds)" using assms(2,3) by (simp add: accs_def)
  moreover have "sum_list (map (server_count L) cs') = sum_list (map (server_count L) cs)"
    using assms(2) by (metis mset_map sum_mset_sum_list)
  moreover have "length cs' = length cs" using assms(2) by (metis size_mset)
  moreover have "set cs' = set cs" using assms(2) by (rule mset_eq_setD)
  ultimately show ?thesis
    using assms(1) accs_inv_perm by (fastforce simp: world_inv_def count_inv_def jobs_inv_def)
qed

lemma accs_distinct: "accs_inv m n (accs cs ds) \<Longrightarrow> distinct (conn_ids cs)"
  by (auto simp: accs_inv_def accs_def conn_ids_def registered_def comp_def)

lemma world_inst_ok:
  assumes "world_inv L inst (c # cs) ds"
  shows "inst_ok inst c" and "job_ok inst c" and "conn_inv L (config inst) c"
proof -
  note W = world_parts [OF assms]
  show "inst_ok inst c"
    using W(1,6,7) registered_dom [of "accs (c # cs) ds"]
    by (auto simp: inst_ok_def accs_inv_def db_ok_def accs_def)
  show "job_ok inst c"
  proof -
    have "\<exists>j \<in> set (jobs inst). linked L c j" if "cancel_ptr c \<noteq> None"
      using W(2) that by (simp add: jobs_inv_def)
    with jobs_inv_find [OF W(2)] show ?thesis by (fastforce simp: job_ok_def linked_def)
  qed
  show "conn_inv L (config inst) c" using W(5) by simp
qed

text \<open>A change the others do not notice.\<close>

lemma world_quiet:
  assumes "world_inv L inst cs ds" and "quiet inst inst'"
  shows "world_inv L inst' cs ds"
  using assms accs_inv_registry [of "client_accounting inst" "next_id inst" "accs cs ds" "client_accounting inst'"]
  by (auto simp: world_inv_def quiet_def db_ok_def db_extends_def count_inv_def)

text \<open>A handler that keeps its connection.\<close>

lemma world_live:
  assumes W: "world_inv L inst (c # cs) ds" and "live_effect L False io inst c inst' c'"
  shows "world_inv L inst' (c' # cs) ds"
proof -
  note P = world_parts [OF W]
  have e: "conn_inv L (config inst) c'" "accounting c' = accounting c" "config inst' = config inst"
    "state c \<noteq> INITIAL \<Longrightarrow> initial_packets c' = initial_packets c"
    using assms(2) by (auto simp: live_effect_def)
  have "accs (c' # cs) ds = accs (c # cs) ds" using e(2) by (simp add: accs_def)
  moreover have "next_id inst \<le> next_id inst'" using assms(2) by (auto simp: live_effect_def split: if_splits)
  ultimately have "accs_inv (client_accounting inst') (next_id inst') (accs (c' # cs) ds)"
    using accs_inv_mono [OF accs_inv_registry [OF P(1)], of "client_accounting inst'"] assms(2)
    by (simp add: live_effect_def)
  moreover have "jobs_inv L (jobs inst') (next_id inst') (c' # cs) \<and>
      knocks_inv L (jobs inst') (next_id inst') (knock_requests inst')"
  proof (cases "cancel_ptr c' = cancel_ptr c")
    case True
    have "initial_packets c' = initial_packets c" if "cancel_ptr c \<noteq> None"
      using that e(4) P(5) [of c] by (auto simp: conn_inv_def)
    with True jobs_inv_same [OF P(2) True e(2)] P(3) assms(2) show ?thesis
      by (simp add: live_effect_def)
  next
    case False
    with jobs_inv_queue [OF P(2)] knocks_inv_mono [OF knocks_inv_queue_conn [OF P(3)]] assms(2)
    show ?thesis by (auto simp: live_effect_def)
  qed
  moreover have "count_inv L (metrics inst') (c' # cs)"
    using P(4) assms(2) by (simp add: count_inv_def live_effect_def algebra_simps)
  ultimately show ?thesis
    using P(5,6) e assms(2) unfolding world_inv_def by (auto simp: live_effect_def db_ok_def db_extends_def)
qed

text \<open>The invariant without the states of the connections: what is left while a handler runs.\<close>

definition world_core :: "lib \<Rightarrow> Instance \<Rightarrow> Connection list \<Rightarrow> DelayedConnection list \<Rightarrow> bool" where
  "world_core L inst cs ds \<longleftrightarrow>
     accs_inv (client_accounting inst) (next_id inst) (accs cs ds) \<and>
     jobs_inv L (jobs inst) (next_id inst) cs \<and>
     knocks_inv L (jobs inst) (next_id inst) (knock_requests inst) \<and>
     count_inv L (metrics inst) cs \<and> db_ok inst \<and> stock_clean (pipe_stock inst)"

lemma world_inv_core: "world_inv L inst cs ds \<longleftrightarrow> world_core L inst cs ds \<and> (\<forall>c \<in> set cs. conn_inv L (config inst) c)"
  by (auto simp: world_inv_def world_core_def)

lemma core_quiet:
  assumes "world_core L inst cs ds" and "quiet inst inst'"
  shows "world_core L inst' cs ds"
  using assms accs_inv_registry [of "client_accounting inst" "next_id inst" "accs cs ds" "client_accounting inst'"]
  by (auto simp: world_core_def quiet_def db_ok_def db_extends_def count_inv_def)

lemma core_replace:
  assumes "world_core L inst (c # cs) ds" and "accounting c' = accounting c" and "cancel_ptr c' = cancel_ptr c"
    and "server_count L c' = server_count L c"
    and "cancel_ptr c \<noteq> None \<Longrightarrow> initial_packets c' = initial_packets c"
  shows "world_core L inst (c' # cs) ds"
  using assms jobs_inv_same [of L "jobs inst" "next_id inst" c cs c']
  by (simp add: world_core_def accs_def count_inv_def)

text \<open>A connection that is destroyed.\<close>

lemma Connection_destroy_fields:
  assumes "Connection_destroy L now inst c = Inr (inst', c')"
  shows "(case cancel_ptr c of None \<Rightarrow> Inr (jobs inst) | Some j \<Rightarrow> job_Cancel L j (jobs inst)) = Inr (jobs inst')"
    and "Accounted_destroy L now (accounting c) (client_accounting inst) = Inr (client_accounting inst')"
    and "client_connections (metrics inst') = client_connections (metrics inst) - 1"
    and "server_connections (metrics inst') = server_connections (metrics inst) - server_count L c"
    and "config inst' = config inst" and "next_id inst' = next_id inst" and "database inst' = database inst"
    and "knock_requests inst' = knock_requests inst" and "knock_listeners inst' = knock_listeners inst"
  using assms
  by (cases "ev_IsDefined L (outgoing c)";
      auto simp: Connection_destroy_def res_simps Let_def server_count_def)+

lemma job_Cancel_subset:
  assumes "job_Cancel L i q = Inr q'" and "j \<in> set q'"
  shows "\<exists>k \<in> set q. job_id j = job_id k \<and> job_callback j = job_callback k"
proof (cases "find_job i q")
  case (Some k)
  from find_job_id [OF Some] have k: "k \<in> set q" by simp
  have "j \<in> set q \<or> j = k\<lparr>job_canceled := True\<rparr>"
    using assms Some by (auto simp: job_Cancel_def delete_job_def set_job_def split: if_splits)
  then show ?thesis using k by auto
qed (use assms in \<open>simp add: job_Cancel_def\<close>)

lemma core_destroy:
  assumes W: "world_core L inst (c # cs) ds" and D: "Connection_destroy L now inst c = Inr (inst', c')"
    and "stock_clean (pipe_stock inst')"
  shows "world_core L inst' cs ds"
    and "within_limit (client_accounting inst) \<Longrightarrow> within_limit (client_accounting inst')"
proof -
  have P: "accs_inv (client_accounting inst) (next_id inst) (accs (c # cs) ds)"
    "jobs_inv L (jobs inst) (next_id inst) (c # cs)"
    "knocks_inv L (jobs inst) (next_id inst) (knock_requests inst)"
    "count_inv L (metrics inst) (c # cs)" "db_ok inst"
    using W by (simp_all add: world_core_def)
  note F = Connection_destroy_fields [OF D]
  have a: "accs (c # cs) ds = accounting c # accs cs ds" by (simp add: accs_def)
  from accs_inv_release [OF P(1) [unfolded a], of L now] F(2)
  have A: "accs_inv (client_accounting inst') (next_id inst) (accs cs ds)"
    "within_limit (client_accounting inst) \<Longrightarrow> within_limit (client_accounting inst')" by auto
  then show "within_limit (client_accounting inst) \<Longrightarrow> within_limit (client_accounting inst')" by blast
  have J: "jobs_inv L (jobs inst') (next_id inst) cs"
    using jobs_inv_drop [OF P(2) accs_distinct [OF P(1)] F(1)] .
  have K: "knocks_inv L (jobs inst') (next_id inst) (knock_requests inst)"
  proof (cases "cancel_ptr c")
    case (Some i)
    with F(1) have "job_Cancel L i (jobs inst) = Inr (jobs inst')" by simp
    from knocks_inv_subset [OF P(3) job_Cancel_subset [OF this]] show ?thesis .
  qed (use F(1) P(3) in simp)
  have "count_inv L (metrics inst') cs" using P(4) F(3,4) by (simp add: count_inv_def)
  with A(1) J K P(5) F assms(3) show "world_core L inst' cs ds"
    by (simp add: world_core_def db_ok_def)
qed

lemma world_destroy:
  assumes W: "world_inv L inst (c # cs) ds" and D: "Connection_destroy L now inst c = Inr (inst', c')"
    and "stock_clean (pipe_stock inst')"
  shows "world_inv L inst' cs ds"
    and "within_limit (client_accounting inst) \<Longrightarrow> within_limit (client_accounting inst')"
  using W core_destroy [OF _ D assms(3), of cs ds] Connection_destroy_fields(5) [OF D]
  by (auto simp: world_inv_core)

text \<open>A handler that runs while its connection's job is gone, and one that destroys its connection.\<close>

lemma core_job_gone:
  assumes W: "world_core L inst (c # cs) ds" and "cancel_ptr c = Some i"
  shows "world_core L (inst\<lparr>jobs := delete_job i (jobs inst)\<rparr>) (c\<lparr>cancel_ptr := None\<rparr> # cs) ds"
proof -
  have "accs_inv (client_accounting inst) (next_id inst) (accs (c # cs) ds)"
    "jobs_inv L (jobs inst) (next_id inst) (c # cs)" using W by (simp_all add: world_core_def)
  from jobs_inv_new [OF jobs_inv_delete [OF this(2) accs_distinct [OF this(1)] assms(2)], of "c\<lparr>cancel_ptr := None\<rparr>"]
  have "jobs_inv L (delete_job i (jobs inst)) (next_id inst) (c\<lparr>cancel_ptr := None\<rparr> # cs)" by simp
  with W show ?thesis
    using knocks_inv_delete [of L "jobs inst" "next_id inst" "knock_requests inst" i]
    by (simp add: world_core_def accs_def count_inv_def server_count_def db_ok_def)
qed

lemma Connection_destroy_packets:
  "Connection_destroy L now inst c = Inr (inst', c') \<Longrightarrow>
   \<exists>c''. Connection_destroy L now inst (c\<lparr>initial_packets := b\<rparr>) = Inr (inst', c'')"
  by (cases "ev_IsDefined L (outgoing c)") (auto simp: Connection_destroy_def res_simps Let_def)

lemma core_dead:
  assumes W: "world_core L inst (c # cs) ds" and E: "dead_effect L checked io inst c0 inst' c'"
    and "accounting c = accounting c0" and "outgoing c = outgoing c0"
    and "cancel_ptr c = (if checked then None else cancel_ptr c0)"
  shows "world_core L inst' cs ds" and "config inst' = config inst"
    and "within_limit (client_accounting inst) \<Longrightarrow> within_limit (client_accounting inst')"
proof -
  from E obtain inst1 c1 where e: "quiet inst inst1" "accounting c1 = accounting c0"
    "cancel_ptr c1 = (if checked then None else cancel_ptr c0)"
    "ev_IsDefined L (outgoing c1) = ev_IsDefined L (outgoing c0)"
    "Connection_destroy L (io_now io) inst1 c1 = Inr (inst', c')" "stock_clean (pipe_stock inst')"
    by (auto simp: dead_effect_def)
  let ?c = "c1\<lparr>initial_packets := initial_packets c\<rparr>"
  from Connection_destroy_packets [OF e(5)] obtain c'' where
    D: "Connection_destroy L (io_now io) inst1 ?c = Inr (inst', c'')" by blast
  have core: "world_core L inst1 (?c # cs) ds"
    by (rule core_replace [OF core_quiet [OF W e(1)]]) (use e(2-4) assms(3-5) in \<open>simp_all add: server_count_def\<close>)
  have q: "config inst1 = config inst" "registry (client_accounting inst1) = registry (client_accounting inst)"
    using e(1) by (simp_all add: quiet_def)
  show "world_core L inst' cs ds" using core_destroy(1) [OF core D e(6)] .
  show "config inst' = config inst" using Connection_destroy_fields(5) [OF D] q(1) by simp
  show "within_limit (client_accounting inst')" if "within_limit (client_accounting inst)"
    using core_destroy(2) [OF core D e(6)] that q(2) by (simp add: within_limit_def)
qed

section \<open>New and delayed connections\<close>

lemma accs_inv_add_unaccounted:
  assumes "accs_inv m n as"
  shows "accs_inv m (n + 1) (new_AccountedClientConnection n # as)"
proof -
  let ?a = "new_AccountedClientConnection n"
  have a: "acc_id ?a = n" "acc_per_client ?a = None" by (simp_all add: new_AccountedClientConnection_def)
  have reg: "registered as (registry m)" using assms by (simp add: accs_inv_def)
  have "registered (?a # as) (registry m)"
  proof (rule registeredI)
    have "n \<notin> acc_id ` set as" using assms by (auto simp: accs_inv_def)
    then show "distinct (map acc_id (?a # as))" using registered_distinct [OF reg] a by simp
  next
    fix c k
    assume "c \<in> set (?a # as)" "acc_per_client c = Some k"
    with a registered_pointer [OF reg] show "\<exists>xs. registry m k = Some xs \<and> acc_id c \<in> set xs" by auto
  next
    fix k xs
    assume xs: "registry m k = Some xs"
    then show "distinct xs" by (rule registered_ids_distinct [OF reg])
    fix i
    assume "i \<in> set xs"
    with registered_owner [OF reg xs] show "\<exists>c \<in> set (?a # as). acc_id c = i \<and> acc_per_client c = Some k" by auto
  qed
  with assms a show ?thesis by (auto simp: accs_inv_def)
qed

text \<open>One more object in the world: what its constructor has to provide.\<close>

lemma count_inv_Cons:
  "count_inv L ms cs \<Longrightarrow> \<not> ev_IsDefined L (outgoing c) \<Longrightarrow>
   client_connections ms' = client_connections ms + 1 \<Longrightarrow> server_connections ms' = server_connections ms \<Longrightarrow>
   count_inv L ms' (c # cs)"
  by (simp add: count_inv_def server_count_def)

lemma world_add_conn:
  assumes "world_inv L inst cs ds"
    and "accs_inv (client_accounting inst') (next_id inst + 1) (accounting c # accs cs ds)"
    and "next_id inst' = next_id inst + 1" and "config inst' = config inst" and "jobs inst' = jobs inst"
    and "database inst' = database inst" and "pipe_stock inst' = pipe_stock inst"
    and "knock_requests inst' = knock_requests inst"
    and "client_connections (metrics inst') = client_connections (metrics inst) + 1"
    and "server_connections (metrics inst') = server_connections (metrics inst)"
    and "conn_inv L (config inst) c" and "cancel_ptr c = None" and "\<not> ev_IsDefined L (outgoing c)"
  shows "world_inv L inst' (c # cs) ds"
proof -
  note P = world_parts [OF assms(1)]
  have "accs (c # cs) ds = accounting c # accs cs ds" by (simp add: accs_def)
  moreover have "jobs_inv L (jobs inst) (next_id inst + 1) (c # cs)"
    using jobs_inv_mono [OF jobs_inv_new [OF P(2) assms(12)]] by simp
  moreover have "knocks_inv L (jobs inst) (next_id inst + 1) (knock_requests inst)"
    using knocks_inv_mono [OF P(3)] by simp
  moreover have "count_inv L (metrics inst') (c # cs)"
    by (rule count_inv_Cons [OF P(4) assms(13,9,10)])
  ultimately show ?thesis
    using assms(2-8,11) P(5-7) by (simp add: world_inv_def db_ok_def)
qed

lemma world_add_delayed:
  assumes "world_inv L inst cs ds"
    and "accs_inv (client_accounting inst') (next_id inst + 1) (dc_accounting d # accs cs ds)"
    and "next_id inst' = next_id inst + 1" and "config inst' = config inst" and "jobs inst' = jobs inst"
    and "database inst' = database inst" and "pipe_stock inst' = pipe_stock inst"
    and "knock_requests inst' = knock_requests inst" and "metrics inst' = metrics inst"
  shows "world_inv L inst' cs (d # ds)"
proof -
  note P = world_parts [OF assms(1)]
  have "mset (accs cs (d # ds)) = mset (dc_accounting d # accs cs ds)" by (simp add: accs_def)
  then have "accs_inv (client_accounting inst') (next_id inst') (accs cs (d # ds))"
    using accs_inv_perm [OF assms(2)] assms(3) by simp
  moreover have "jobs_inv L (jobs inst) (next_id inst + 1) cs"
    "knocks_inv L (jobs inst) (next_id inst + 1) (knock_requests inst)"
    using jobs_inv_mono [OF P(2)] knocks_inv_mono [OF P(3)] by simp_all
  ultimately show ?thesis
    using assms(3-9) P(4-7) by (simp add: world_inv_def db_ok_def)
qed

lemma DelayedConnection_destroy_world:
  assumes "world_inv L inst cs (d # ds)"
  obtains inst' d' where "DelayedConnection_destroy L now inst d = Inr (inst', d')" "world_inv L inst' cs ds"
    "within_limit (client_accounting inst) \<Longrightarrow> within_limit (client_accounting inst')"
    "\<And>k xs. acc_per_client (dc_accounting d) = Some k \<Longrightarrow> registry (client_accounting inst) k = Some xs \<Longrightarrow>
       registry (client_accounting inst') = (registry (client_accounting inst))(k \<mapsto> remove1 (acc_id (dc_accounting d)) xs)"
proof -
  note P = world_parts [OF assms]
  have "mset (dc_accounting d # accs cs ds) = mset (accs cs (d # ds))" by (simp add: accs_def)
  from accs_inv_release [OF accs_inv_perm [OF P(1) this], of L now] obtain m where
    m: "Accounted_destroy L now (dc_accounting d) (client_accounting inst) = Inr m"
      "accs_inv m (next_id inst) (accs cs ds)" "within_limit (client_accounting inst) \<Longrightarrow> within_limit m"
      "\<And>k xs. acc_per_client (dc_accounting d) = Some k \<Longrightarrow> registry (client_accounting inst) k = Some xs \<Longrightarrow>
       registry m = (registry (client_accounting inst))(k \<mapsto> remove1 (acc_id (dc_accounting d)) xs)" by blast
  have "world_inv L (inst\<lparr>client_accounting := m\<rparr>) cs ds"
    using m(2) P(2-7) by (simp add: world_inv_def db_ok_def)
  then show thesis
    using m by (intro that [of "inst\<lparr>client_accounting := m\<rparr>" "d\<lparr>dc_socket := EvClose # dc_socket d\<rparr>"])
      (simp_all add: DelayedConnection_destroy_def Let_def)
qed

lemma within_limit_update:
  "within_limit m \<Longrightarrow> registry m' = (registry m)(k \<mapsto> xs) \<Longrightarrow> length xs \<le> 16 \<Longrightarrow> within_limit m'"
  by (auto simp: within_limit_def split: if_splits)

text \<open>What accepting a connection does: nothing, a new connection, or a new delayed connection.\<close>

inductive listener_grows :: "Listener \<Rightarrow> Connection list \<Rightarrow> DelayedConnection list \<Rightarrow> Listener \<Rightarrow> Connection list \<Rightarrow> DelayedConnection list \<Rightarrow> bool" where
  grows_none: "listener_grows l cs ds l cs ds"
| grows_conn: "listener_grows l cs ds (l\<lparr>connections := c # connections l\<rparr>) (c # cs) ds"
| grows_delayed: "listener_grows l cs ds (l\<lparr>delayed := delayed l @ [d]\<rparr>) cs (d # ds)"

context event_lib
begin

lemma initial_flags [simp]:
  "has_event (ev_READ L OR ev_READ_HANGUP L) (ev_READ L)"
  "\<not> has_event (ev_READ L OR ev_READ_HANGUP L) (ev_WRITE L)"
proof -
  have "(ev_READ L OR ev_READ_HANGUP L) AND ev_READ L = ev_READ L"
    by (simp add: bit_eq_iff bit_simps)
  then show "has_event (ev_READ L OR ev_READ_HANGUP L) (ev_READ L)"
    using READ_nonzero by (simp add: has_event_def)
  have "(ev_READ L OR ev_READ_HANGUP L) AND ev_WRITE L =
      (ev_READ L AND ev_WRITE L) OR (ev_READ_HANGUP L AND ev_WRITE L)"
    by (rule bit_word_eqI) (simp only: bit_and_iff bit_or_iff, blast)
  then show "\<not> has_event (ev_READ L OR ev_READ_HANGUP L) (ev_WRITE L)"
    by (simp add: has_event_def)
qed

lemma new_Connection_world:
  assumes W: "world_inv L inst cs ds" and "length mem = 83"
    and k: "\<forall>p. k = Some p \<longrightarrow> find_entry p (client_accounting inst) \<noteq> None"
  obtains inst' c where "new_Connection L mem k fd address inst = Inr (inst', c)"
    "world_inv L inst' (c # cs) ds" "knock_listeners inst' = knock_listeners inst"
    "state c = INITIAL"
    "case k of None \<Rightarrow> registry (client_accounting inst') = registry (client_accounting inst)
     | Some p \<Rightarrow> \<exists>xs. registry (client_accounting inst) p = Some xs \<and>
         registry (client_accounting inst') = (registry (client_accounting inst))(p \<mapsto> xs @ [next_id inst])"
proof -
  note P = world_parts [OF W]
  let ?a = "new_AccountedClientConnection (next_id inst)"
  let ?i = "inst\<lparr>next_id := next_id inst + 1, metrics := (metrics inst)
              \<lparr>client_connections := client_connections (metrics inst) + 1,
               client_connections_accepted := client_connections_accepted (metrics inst) + 1\<rparr>\<rparr>"
  let ?c = "\<lparr>remote_address = address, accounting = ?a,
      incoming = [EvSchedule (ev_READ L OR ev_READ_HANGUP L), EvCtor fd], outgoing = [],
      splice_in_out = new_Splice, splice_out_in = new_Splice, outgoing_address = AddrNull, connect = [],
      timeout = [TmSchedule (seconds 5)], cancel_ptr = None, initial_packets = mem,
      initial_packets_fill = 0, state = INITIAL, send_play_server = False\<rparr>"
  have ci: "conn_inv L cfg (?c\<lparr>accounting := a\<rparr>)" for cfg a
    using assms(2) by (simp add: conn_inv_def state_inv_def no_server_def idle_splices_def)
  show thesis
  proof (cases k)
    case None
    have "world_inv L ?i (?c # cs) ds"
      by (rule world_add_conn [OF W])
        (use accs_inv_add_unaccounted [OF P(1)] ci [of "config inst" ?a] in simp_all)
    then show thesis
      by (rule that [rotated]) (use None in \<open>simp_all add: new_Connection_def Let_def\<close>)
  next
    case (Some p)
    with k have "find_entry p (client_accounting inst) \<noteq> None" by simp
    from accs_inv_add [OF P(1) this] obtain m xs where
      m: "PerClient_AddConnection p ?a (client_accounting inst) = Inr (m, ?a\<lparr>acc_per_client := Some p\<rparr>)"
        "accs_inv m (next_id inst + 1) (?a\<lparr>acc_per_client := Some p\<rparr> # accs cs ds)"
        "registry (client_accounting inst) p = Some xs"
        "registry m = (registry (client_accounting inst))(p \<mapsto> xs @ [next_id inst])" by blast
    have "world_inv L (?i\<lparr>client_accounting := m\<rparr>) (?c\<lparr>accounting := ?a\<lparr>acc_per_client := Some p\<rparr>\<rparr> # cs) ds"
      by (rule world_add_conn [OF W]) (use m ci in simp_all)
    then show thesis
      by (rule that [rotated]) (use Some m in \<open>simp_all add: new_Connection_def Let_def\<close>)
  qed
qed

lemma Listener_AddConnection_world:
  assumes "world_inv L inst cs ds" and "length mem = 83"
    and "\<forall>p. k = Some p \<longrightarrow> find_entry p (client_accounting inst) \<noteq> None"
  obtains inst' c where
    "Listener_AddConnection L mem k fd address inst l = Inr (inst', l\<lparr>connections := c # connections l\<rparr>)"
    "world_inv L inst' (c # cs) ds" "knock_listeners inst' = knock_listeners inst" "state c = INITIAL"
    "case k of None \<Rightarrow> registry (client_accounting inst') = registry (client_accounting inst)
     | Some p \<Rightarrow> \<exists>xs. registry (client_accounting inst) p = Some xs \<and>
         registry (client_accounting inst') = (registry (client_accounting inst))(p \<mapsto> xs @ [next_id inst])"
  by (rule new_Connection_world [OF assms, of fd address])
    (rule that, simp_all add: Listener_AddConnection_def)

lemma new_DelayedConnection_world:
  assumes W: "world_inv L inst cs ds" and "find_entry k (client_accounting inst) \<noteq> None"
  obtains inst' d xs where "new_DelayedConnection L k delay fd address inst = Inr (inst', d)"
    "world_inv L inst' cs (d # ds)" "registry (client_accounting inst) k = Some xs"
    "registry (client_accounting inst') = (registry (client_accounting inst))(k \<mapsto> xs @ [next_id inst])"
proof -
  note P = world_parts [OF W]
  let ?a = "new_AccountedClientConnection (next_id inst)"
  from accs_inv_add [OF P(1) assms(2)] obtain m xs where
    m: "PerClient_AddConnection k ?a (client_accounting inst) = Inr (m, ?a\<lparr>acc_per_client := Some k\<rparr>)"
      "accs_inv m (next_id inst + 1) (?a\<lparr>acc_per_client := Some k\<rparr> # accs cs ds)"
      "registry (client_accounting inst) k = Some xs"
      "registry m = (registry (client_accounting inst))(k \<mapsto> xs @ [next_id inst])" by blast
  let ?i = "inst\<lparr>next_id := next_id inst + 1, client_accounting := m\<rparr>"
  let ?d = "\<lparr>dc_peer_address = address, dc_accounting = ?a\<lparr>acc_per_client := Some k\<rparr>,
      dc_timer = [TmSchedule delay], dc_socket = [EvSchedule (ev_READ_HANGUP L), EvCtor fd]\<rparr>"
  have "world_inv L ?i cs (?d # ds)" by (rule world_add_delayed [OF W]) (use m in simp_all)
  then show thesis
    by (rule that [rotated]) (use m in \<open>simp_all add: new_DelayedConnection_def Let_def\<close>)
qed

lemma world_accounting:
  assumes "world_inv L inst cs ds" and "accs_inv m (next_id inst) (accs cs ds)"
    and "client_connections ms = client_connections (metrics inst)"
    and "server_connections ms = server_connections (metrics inst)"
  shows "world_inv L (inst\<lparr>client_accounting := m, metrics := ms\<rparr>) cs ds"
    and "world_inv L (inst\<lparr>metrics := ms, client_accounting := m\<rparr>) cs ds"
  using assms by (simp_all add: world_inv_def db_ok_def count_inv_def)

lemma OnAccept_known_world:
  assumes W: "world_inv L inst cs ds" and "length mem = 83"
    and G: "GetClientAccounting L address inst = (Some p, inst\<lparr>client_accounting := m\<rparr>)"
    and m: "Map_UpdateTokenBucket L now 1 p m = Inr m'" "accs_inv m' (next_id inst) (accs cs ds)" "within_limit m'"
    and pc: "find_entry p m' = Some pc"
  obtains inst' l' cs' ds' where "OnAccept L now mem fd address inst l = Inr (inst', l')"
    "world_inv L inst' cs' ds'" "within_limit (client_accounting inst')" "listener_grows l cs ds l' cs' ds'"
proof -
  have Wj: "world_inv L (inst\<lparr>client_accounting := m', metrics := ms\<rparr>) cs ds"
    if "client_connections ms = client_connections (metrics inst)"
      "server_connections ms = server_connections (metrics inst)" for ms
    using world_accounting(1) [OF W m(2) that] .
  have check: "registry m' p = Some xs \<Longrightarrow> PerClient_Check pc m' \<Longrightarrow> length xs < 16" for xs
    using pc m(2) by (auto simp: PerClient_Check_def registry_def accs_inv_def)
  have m': "Map_UpdateTokenBucket L now 1 p (client_accounting (inst\<lparr>client_accounting := m\<rparr>)) = Inr m'"
    using m(1) by simp
  from G m' pc show thesis
  proof (cases rule: OnAccept_cases [where mem = mem and fd = fd and l = l])
    case not_knocked
    with m(3) Wj [of "(metrics inst)\<lparr>missing_knocks := missing_knocks (metrics inst) + 1\<rparr>"] show thesis
      by (intro that [OF _ _ _ grows_none]) auto
  next
    case too_many
    with m(3) Wj [of "metrics inst"] show thesis by (intro that [OF _ _ _ grows_none]) auto
  next
    case tarpit
    let ?k = "inst\<lparr>client_accounting := m', metrics := (metrics inst)
            \<lparr>delayed_connections := delayed_connections (metrics inst) + 1\<rparr>\<rparr>"
    have "world_inv L ?k cs ds" by (rule Wj) simp_all
    then obtain i d xs where D: "new_DelayedConnection L p (pc_delay pc) fd address ?k = Inr (i, d)"
      "world_inv L i cs (d # ds)" "registry m' p = Some xs"
      "registry (client_accounting i) = (registry m')(p \<mapsto> xs @ [next_id inst])"
      using new_DelayedConnection_world [of ?k cs ds p "pc_delay pc" fd address] pc by auto
    with within_limit_update [OF m(3) D(4)] check [OF D(3) tarpit(2)] tarpit show thesis
      by (intro that [OF _ _ _ grows_delayed]) auto
  next
    case admit
    obtain i c xs where D: "Listener_AddConnection L mem (Some p) fd address (inst\<lparr>client_accounting := m'\<rparr>) l =
          Inr (i, l\<lparr>connections := c # connections l\<rparr>)"
      "world_inv L i (c # cs) ds" "registry m' p = Some xs"
      "registry (client_accounting i) = (registry m')(p \<mapsto> xs @ [next_id inst])"
      by (rule Listener_AddConnection_world [of "inst\<lparr>client_accounting := m'\<rparr>" cs ds mem "Some p" fd address l])
        (use Wj [of "metrics inst"] pc assms(2) in auto)
    with within_limit_update [OF m(3) D(4)] check [OF D(3) admit(2)] admit show thesis
      by (intro that [OF _ _ _ grows_conn]) auto
  qed
qed

lemma OnAccept_world:
  assumes W: "world_inv L inst cs ds" and lim: "within_limit (client_accounting inst)" and "length mem = 83"
  obtains inst' l' cs' ds' where "OnAccept L now mem fd address inst l = Inr (inst', l')"
    "world_inv L inst' cs' ds'" "within_limit (client_accounting inst')" "listener_grows l cs ds l' cs' ds'"
proof -
  obtain k m where G: "ClientAccountingMap_Get L address (client_accounting inst) = (k, m)" by force
  have m: "accs_inv m (next_id inst) (accs cs ds)" "within_limit m"
    "\<And>p. k = Some p \<Longrightarrow> find_entry p m \<noteq> None"
    using accs_inv_get [OF world_parts(1) [OF W], of L address] within_limit_get [OF lim, of L address] G by auto
  show thesis
  proof (cases k)
    case None
    have "world_inv L (inst\<lparr>client_accounting := m\<rparr>) cs ds"
      using world_accounting(1) [OF W m(1), of "metrics inst"] by simp
    then show thesis
      by (rule Listener_AddConnection_world [OF _ assms(3), of _ cs ds None fd address l], simp)
        (rule that, use G None m(2) in \<open>auto simp: OnAccept_def GetClientAccounting_def within_limit_def intro: grows_conn\<close>)
  next
    case (Some p)
    from accs_inv_charge [OF m(1) m(3) [OF Some], of L now 1] obtain m' pc where
      m': "Map_UpdateTokenBucket L now 1 p m = Inr m'" "accs_inv m' (next_id inst) (accs cs ds)"
        "registry m' = registry m" "find_entry p m' = Some pc" by blast
    show thesis
      by (rule OnAccept_known_world [OF W assms(3) _ m'(1,2) _ m'(4), of address fd l])
        (use G Some m(2) m'(3) that in \<open>auto simp: GetClientAccounting_def within_limit_def\<close>)
  qed
qed

lemma Delayed_OnTimer_world:
  assumes W: "world_inv L inst cs (d # ds)" and lim: "within_limit (client_accounting inst)" and "length mem = 83"
  obtains inst' c where "Delayed_OnTimer L now mem inst l d others =
      Inr (inst', l\<lparr>connections := c # connections l, delayed := others\<rparr>)"
    "world_inv L inst' (c # cs) ds" "within_limit (client_accounting inst')" "state c = INITIAL"
proof -
  let ?k = "acc_per_client (dc_accounting d)"
  let ?d = "d\<lparr>dc_timer := TmFired # dc_timer d, dc_socket := EvReleaseSocket # dc_socket d\<rparr>"
  have reg: "registered (accs cs (d # ds)) (registry (client_accounting inst))"
    using world_parts(1) [OF W] by (simp add: accs_inv_def)
  have ptr: "\<exists>xs. registry (client_accounting inst) p = Some xs \<and> acc_id (dc_accounting d) \<in> set xs"
    if "?k = Some p" for p
    using registered_pointer [OF reg _ that] by (simp add: accs_def)
  then have "\<forall>p. ?k = Some p \<longrightarrow> find_entry p (client_accounting inst) \<noteq> None"
    by (fastforce simp: registry_def)
  from Listener_AddConnection_world [OF W assms(3) this, of "ev_fd (dc_socket d)" "dc_peer_address d" l]
  obtain i c where A:
    "Listener_AddConnection L mem ?k (ev_fd (dc_socket d)) (dc_peer_address d) inst l =
       Inr (i, l\<lparr>connections := c # connections l\<rparr>)" "world_inv L i (c # cs) (d # ds)" "state c = INITIAL"
    "case ?k of None \<Rightarrow> registry (client_accounting i) = registry (client_accounting inst)
     | Some p \<Rightarrow> \<exists>xs. registry (client_accounting inst) p = Some xs \<and>
         registry (client_accounting i) = (registry (client_accounting inst))(p \<mapsto> xs @ [next_id inst])" by blast
  have "world_inv L i (c # cs) (?d # ds)"
    using A(2) by (simp add: world_inv_def accs_def)
  from DelayedConnection_destroy_world [OF this, of now] obtain i' d' where
    D: "DelayedConnection_destroy L now i ?d = Inr (i', d')" "world_inv L i' (c # cs) ds"
      "within_limit (client_accounting i) \<Longrightarrow> within_limit (client_accounting i')"
      "\<And>k xs. ?k = Some k \<Longrightarrow> registry (client_accounting i) k = Some xs \<Longrightarrow>
         registry (client_accounting i') = (registry (client_accounting i))(k \<mapsto> remove1 (acc_id (dc_accounting d)) xs)"
    by auto
  have "within_limit (client_accounting i')"
  proof (cases ?k)
    case None
    with A(4) D(3) lim show ?thesis by (simp add: within_limit_def)
  next
    case (Some p)
    with A(4) obtain xs where xs: "registry (client_accounting inst) p = Some xs"
      "registry (client_accounting i) = (registry (client_accounting inst))(p \<mapsto> xs @ [next_id inst])" by auto
    let ?ys = "remove1 (acc_id (dc_accounting d)) (xs @ [next_id inst])"
    from ptr [OF Some] xs(1) have "acc_id (dc_accounting d) \<in> set xs" by simp
    then have "length ?ys = length xs"
      using length_remove1_eq [of "acc_id (dc_accounting d)" xs] by (simp add: remove1_append)
    moreover have "length xs \<le> 16" using lim xs(1) by (simp add: within_limit_def)
    moreover have "registry (client_accounting i') = (registry (client_accounting inst))(p \<mapsto> ?ys)"
      using D(4) [OF Some, of "xs @ [next_id inst]"] xs(2) by simp
    ultimately show ?thesis using within_limit_update [OF lim] by simp
  qed
  with A D show thesis
    by (intro that [of i' c]) (simp_all add: Delayed_OnTimer_def Let_def)
qed

lemma Delayed_OnSocketReady_world:
  assumes W: "world_inv L inst cs (d # ds)" and lim: "within_limit (client_accounting inst)"
  obtains inst' where "Delayed_OnSocketReady L now inst l d others = Inr (inst', l\<lparr>delayed := others\<rparr>)"
    "world_inv L inst' cs ds" "within_limit (client_accounting inst')"
proof -
  let ?m = "client_accounting inst"
  have reg: "registered (accs cs (d # ds)) (registry ?m)" "wf_map ?m" "max_connections ?m = 16"
    using world_parts(1) [OF W] by (simp_all add: accs_inv_def)
  have "\<forall>k. acc_per_client (dc_accounting d) = Some k \<longrightarrow> k \<in> dom (registry ?m)"
    using registered_dom [OF reg(1), of "dc_accounting d"] by (auto simp: accs_def)
  from Accounted_UpdateTokenBucket_ok [OF reg(2) this, of L now 4] obtain m where
    m: "Accounted_UpdateTokenBucket L now 4 (dc_accounting d) ?m = Inr m" "wf_map m" "registry m = registry ?m"
    by blast
  then have "max_connections m = max_connections ?m"
    by (auto simp: Accounted_UpdateTokenBucket_def Map_UpdateTokenBucket_def split: option.splits)
  from world_accounting(1) [OF W accs_inv_registry [OF world_parts(1) [OF W] m(2,3) this], of "metrics inst"]
  have "world_inv L (inst\<lparr>client_accounting := m\<rparr>) cs (d # ds)" by simp
  then obtain i' d' where
    "DelayedConnection_destroy L now (inst\<lparr>client_accounting := m\<rparr>) d = Inr (i', d')" "world_inv L i' cs ds"
    "within_limit m \<Longrightarrow> within_limit (client_accounting i')"
    by (rule DelayedConnection_destroy_world [of _ _ _ _ _ now]) simp
  with m lim show thesis
    by (intro that [of i']) (simp_all add: Delayed_OnSocketReady_def within_limit_def)
qed

section \<open>Knocks\<close>

lemma Request_OnCheckCredentials_world:
  assumes W: "world_inv L inst cs ds" and lim: "within_limit (client_accounting inst)"
    and key: "ToInteger L address \<noteq> 0"
  obtains inst' call where
    "Request_OnCheckCredentials L now env this address st user r inst = Inr (delete_request this inst', call)"
    "world_inv L inst' cs ds" "within_limit (client_accounting inst')"
    "knock_requests inst' = knock_requests inst" "jobs inst' = jobs inst"
    "knock_listeners inst' = knock_listeners inst" "next_id inst' = next_id inst"
proof -
  obtain k m where G: "ClientAccountingMap_Get L address (client_accounting inst) = (Some k, m)"
    using key by (fastforce simp: ClientAccountingMap_Get_def Let_def split: option.splits)
  have m: "accs_inv m (next_id inst) (accs cs ds)" "within_limit m" "find_entry k m \<noteq> None"
    using accs_inv_get [OF world_parts(1) [OF W], of L address] within_limit_get [OF lim, of L address] G by auto
  show thesis
  proof (cases r)
    case False
    from accs_inv_charge [OF m(1,3), of L now 5] obtain m' where
      m': "Map_UpdateTokenBucket L now 5 k m = Inr m'" "accs_inv m' (next_id inst) (accs cs ds)"
        "registry m' = registry m" by blast
    let ?i = "inst\<lparr>client_accounting := m', metrics := (metrics inst)
                \<lparr>rejected_knocks := rejected_knocks (metrics inst) + 1\<rparr>\<rparr>"
    have "world_inv L ?i cs ds" by (rule world_accounting(1) [OF W m'(2)]) simp_all
    moreover have "within_limit m'" using m(2) m'(3) by (simp add: within_limit_def)
    ultimately show thesis
      using False G m'(1)
      by (intro that [of ?i None]) (simp_all add: Request_OnCheckCredentials_def GetClientAccounting_def Let_def)
  next
    case True
    from accs_inv_knock [OF m(1,3)] obtain m' where
      m': "Map_SetKnocked k m = Inr m'" "accs_inv m' (next_id inst) (accs cs ds)"
        "registry m' = registry m" by blast
    let ?i = "inst\<lparr>metrics := (metrics inst)\<lparr>accepted_knocks := accepted_knocks (metrics inst) + 1\<rparr>,
                client_accounting := m'\<rparr>"
    have "world_inv L ?i cs ds" by (rule world_accounting(2) [OF W m'(2)]) simp_all
    moreover have "within_limit m'" using m(2) m'(3) by (simp add: within_limit_def)
    ultimately show thesis
      using True G m'(1)
      by (intro that [of ?i "case st of None \<Rightarrow> None | Some s \<Rightarrow> if HostToString L address \<noteq> []
             then Some (NftAddElement ''inet'' ''filter'' s (HostToString L address)
               (nft_spawn env) (nft_errno env) (nft_waits env)) else None"])
        (simp_all add: Request_OnCheckCredentials_def GetClientAccounting_def Let_def split: option.split)
  qed
qed

lemma world_delete_request:
  assumes "world_inv L inst cs ds"
    and "knocks_inv L (jobs inst) (next_id inst) (remove1 r (knock_requests inst))"
  shows "world_inv L (delete_request r inst) cs ds"
  using assms by (simp add: world_inv_def delete_request_def db_ok_def)

lemma new_Request_world:
  assumes W: "world_inv L inst cs ds" and lim: "within_limit (client_accounting inst)"
    and key: "ToInteger L address \<noteq> 0"
  shows "(\<exists>inst' call. new_Request L now reload env st user pass address inst = Inr (inst', call) \<and>
      world_inv L inst' cs ds \<and> within_limit (client_accounting inst')) \<or>
    (\<exists>d e. CheckCredentials reload (database inst) = Inr (d, CheckThrows e) \<and>
      new_Request L now reload env st user pass address inst = Inl (StdTerminate ''KnockListener.cxx'' 43))"
proof -
  note P = world_parts [OF W]
  let ?n = "next_id inst"
  let ?i = "inst\<lparr>next_id := ?n + 1, knock_requests := ?n # knock_requests inst\<rparr>"
  have db: "db_inv (database inst)" using P(6) by (simp add: db_ok_def)
  have fresh: "?n \<notin> set (knock_requests inst)" using P(3) unfolding knocks_inv_def by blast
  have K: "knocks_inv L (jobs inst) (?n + 1) (?n # knock_requests inst)"
    using P(3) fresh by (auto simp: knocks_inv_def)
  have Wi: "world_inv L (?i\<lparr>database := d\<rparr>) cs ds"
    if "db_inv d" "db_extends (database inst) d" for d
    using that P K accs_inv_mono [OF P(1)] jobs_inv_mono [OF P(2)]
    by (simp add: world_inv_def db_ok_def db_extends_def)
  from db show ?thesis
  proof (cases rule: CheckCredentials_cases [of _ reload])
    case (throws d e)
    then show ?thesis by (simp add: new_Request_def noexcept_def Let_def)
  next
    case (checks d)
    let ?j = "new_CheckCredentialsJob (?n + 1) user pass (CbKnock ?n address st)"
    let ?i' = "?i\<lparr>database := d, jobs := queue_Add ?j (jobs inst), next_id := ?n + 2\<rparr>"
    have j: "job_callback ?j = CbKnock ?n address st" "job_id ?j = ?n + 1"
      by (simp_all add: new_CheckCredentialsJob_def)
    have "jobs_inv L (queue_Add ?j (jobs inst)) (?n + 2) cs"
      using P(2) j unfolding jobs_inv_def queue_Add_def by (auto simp: less_Suc_eq)
    moreover have "knocks_inv L (queue_Add ?j (jobs inst)) (?n + 2) (?n # knock_requests inst)"
      using knocks_inv_queue_knock [OF P(3) key j(1)] .
    moreover note CheckCredentials_frame [OF db checks(1)]
    ultimately have "world_inv L ?i' cs ds"
      using P accs_inv_mono [OF P(1)] checks(2) by (simp add: world_inv_def db_ok_def db_extends_def)
    with checks lim show ?thesis by (simp add: new_Request_def Let_def)
  next
    case accepts
    from Wi [OF db db_extends_refl] have Wd: "world_inv L (?i\<lparr>database := database inst\<rparr>) cs ds" .
    obtain i' call where R:
      "Request_OnCheckCredentials L now env ?n address st user True (?i\<lparr>database := database inst\<rparr>) =
         Inr (delete_request ?n i', call)" "world_inv L i' cs ds" "within_limit (client_accounting i')"
      "knock_requests i' = ?n # knock_requests inst" "jobs i' = jobs inst" "next_id i' = ?n + 1"
      by (rule Request_OnCheckCredentials_world [OF Wd _ key, of now env ?n st user True]) (use lim in auto)
    have "world_inv L (delete_request ?n i') cs ds"
      using R(4-6) knocks_inv_mono [OF P(3)] by (intro world_delete_request [OF R(2)]) simp
    with accepts(1) R(1,3) show ?thesis by (simp add: new_Request_def Let_def delete_request_def)
  qed
qed

lemma OnUdpDatagram_world:
  assumes W: "world_inv L inst cs ds" and lim: "within_limit (client_accounting inst)"
  shows "(\<exists>inst' call. OnUdpDatagram L now reload env st payload address inst = Inr (inst', call) \<and>
      world_inv L inst' cs ds \<and> within_limit (client_accounting inst')) \<or>
    (\<exists>d e. CheckCredentials reload (database inst) = Inr (d, CheckThrows e) \<and>
      OnUdpDatagram L now reload env st payload address inst = Inl (StdTerminate ''KnockListener.cxx'' 43))"
proof -
  obtain k m where G: "ClientAccountingMap_Get L address (client_accounting inst) = (k, m)" by force
  have m: "accs_inv m (next_id inst) (accs cs ds)" "within_limit m" "\<And>p. k = Some p \<Longrightarrow> find_entry p m \<noteq> None"
    using accs_inv_get [OF world_parts(1) [OF W], of L address] within_limit_get [OF lim, of L address] G by auto
  have Wm: "world_inv L (inst\<lparr>client_accounting := m\<rparr>) cs ds"
    using world_accounting(1) [OF W m(1), of "metrics inst"] by simp
  show ?thesis
  proof (cases k)
    case None
    with G Wm m(2) show ?thesis by (simp add: OnUdpDatagram_def GetClientAccounting_def)
  next
    case (Some p)
    with G have key: "ToInteger L address \<noteq> 0" by (auto simp: ClientAccountingMap_Get_def Let_def split: if_splits)
    have charged: "\<exists>m'. Map_UpdateTokenBucket L now sz p m = Inr m' \<and> within_limit m' \<and>
        world_inv L (inst\<lparr>client_accounting := m', metrics := (metrics inst)
          \<lparr>malformed_knocks := malformed_knocks (metrics inst) + 1\<rparr>\<rparr>) cs ds" for sz
    proof -
      from accs_inv_charge [OF m(1) m(3) [OF Some], of L now sz] obtain m' where
        m': "Map_UpdateTokenBucket L now sz p m = Inr m'" "accs_inv m' (next_id inst) (accs cs ds)"
          "registry m' = registry m" by blast
      with m(2) world_accounting(1) [OF W m'(2), of "(metrics inst)\<lparr>malformed_knocks := malformed_knocks (metrics inst) + 1\<rparr>"]
      show ?thesis by (auto simp: within_limit_def)
    qed
    let ?p = "decode_account_login payload"
    let ?u = "ExtractString (username (credentials ?p))"
    consider "length payload \<noteq> 62 \<or> login_cmd ?p \<noteq> Command_AccountLogin"
      | "length payload = 62" "login_cmd ?p = Command_AccountLogin" "\<not> IsValidUsername L ?u"
      | "length payload = 62" "login_cmd ?p = Command_AccountLogin" "IsValidUsername L ?u" by blast
    then show ?thesis
    proof cases
      case 1
      with charged [of 10] G Some show ?thesis by (auto simp: OnUdpDatagram_def GetClientAccounting_def Let_def)
    next
      case 2
      with charged [of 8] G Some show ?thesis by (auto simp: OnUdpDatagram_def GetClientAccounting_def Let_def)
    next
      case 3
      with G Some have "OnUdpDatagram L now reload env st payload address inst =
          new_Request L now reload env (kl_nft_set st) ?u (ExtractString (password (credentials ?p))) address
            (inst\<lparr>client_accounting := m\<rparr>)"
        by (simp add: OnUdpDatagram_def GetClientAccounting_def Let_def)
      with new_Request_world [OF Wm _ key, of now reload env "kl_nft_set st" ?u] m(2) show ?thesis by simp
    qed
  qed
qed

section \<open>Job steps and shutdown\<close>

lemma world_jobs:
  assumes "world_inv L inst cs ds" and "jobs_inv L q (next_id inst) cs"
    and "knocks_inv L q (next_id inst) (knock_requests inst)"
  shows "world_inv L (inst\<lparr>jobs := q\<rparr>) cs ds"
  using assms by (simp add: world_inv_def db_ok_def)

lemma world_job_update:
  assumes W: "world_inv L inst cs ds" and j: "find_job (job_id j') (jobs inst) = Some j"
    and "job_canceled j' = job_canceled j" and "job_callback j' = job_callback j"
    and "job_username j' = job_username j" and "job_password j' = job_password j"
  shows "world_inv L (inst\<lparr>jobs := set_job j' (jobs inst)\<rparr>) cs ds"
proof (rule world_jobs [OF W])
  show "jobs_inv L (set_job j' (jobs inst)) (next_id inst) cs"
    using jobs_inv_update [OF world_parts(2) [OF W] j assms(3-6)] .
  have "k \<in> set (jobs inst) \<or> k = j'" if "k \<in> set (set_job j' (jobs inst))" for k
    using that by (auto simp: set_job_def)
  with find_job_id [OF j] assms(4) show "knocks_inv L (set_job j' (jobs inst)) (next_id inst) (knock_requests inst)"
    by (intro knocks_inv_subset [OF world_parts(3) [OF W]]) metis
qed

lemma dispose_delayed_world:
  assumes "world_inv L inst cs (ds @ es)" and "within_limit (client_accounting inst)"
  shows "\<exists>inst'. dispose_delayed L now ds inst = Inr inst' \<and> world_inv L inst' cs es \<and>
    within_limit (client_accounting inst')"
  using assms
proof (induction ds arbitrary: inst)
  case (Cons d ds)
  from Cons.prems(1) have "world_inv L inst cs (d # ds @ es)" by simp
  then obtain i d' where "DelayedConnection_destroy L now inst d = Inr (i, d')" "world_inv L i cs (ds @ es)"
    "within_limit (client_accounting inst) \<Longrightarrow> within_limit (client_accounting i)"
    by (rule DelayedConnection_destroy_world [of _ _ _ _ _ now]) blast
  with Cons show ?case by simp
qed simp

lemma dispose_connections_world:
  assumes "world_inv L inst (cs @ es) ds" and "within_limit (client_accounting inst)"
  shows "\<exists>inst'. dispose_connections L now cs inst = Inr inst' \<and> world_inv L inst' es ds \<and>
    within_limit (client_accounting inst')"
  using assms
proof (induction cs arbitrary: inst)
  case (Cons c cs)
  from Cons.prems(1) have W: "world_inv L inst (c # cs @ es) ds" by simp
  note ok = world_inst_ok [OF W]
  from Connection_destroy_ok [OF ok(1,2)] conn_inv_splices [OF ok(3)] obtain i c' where
    D: "Connection_destroy L now inst c = Inr (i, c')" "stock_clean (pipe_stock i)" by blast
  from Cons.IH [OF world_destroy(1) [OF W D] world_destroy(2) [OF W D Cons.prems(2)]] D(1)
  show ?case by simp
qed simp

lemma destroy_listeners_world:
  assumes "world_inv L inst (concat (map connections ls)) (concat (map delayed ls))"
    and "within_limit (client_accounting inst)"
  shows "\<exists>inst'. destroy_listeners L now ls inst = Inr inst' \<and> world_inv L inst' [] [] \<and>
    within_limit (client_accounting inst')"
  using assms
proof (induction ls arbitrary: inst)
  case (Cons l ls)
  from dispose_delayed_world [of inst "concat (map connections (l # ls))" "delayed l" "concat (map delayed ls)" now] Cons.prems
  obtain i where i: "dispose_delayed L now (delayed l) inst = Inr i"
    "world_inv L i (connections l @ concat (map connections ls)) (concat (map delayed ls))"
    "within_limit (client_accounting i)" by auto
  from dispose_connections_world [OF i(2,3), of now] obtain i' where
    "dispose_connections L now (connections l) i = Inr i'"
    "world_inv L i' (concat (map connections ls)) (concat (map delayed ls))"
    "within_limit (client_accounting i')" by blast
  with Cons.IH i(1) show ?case by (simp add: Listener_destroy_def)
qed simp

end

end
