(* ===== verification/System_Invariant.thy ===== *)
theory System_Invariant
  imports System_Safety
begin

text \<open>
  The invariant of the daemon as a state machine: every event handler keeps it or ends in
  one of the faults of \<open>sys_fault\<close>; and the invariant that connections behind the password check
  were accepted by one.  The properties of the whole program are in the root theory.
\<close>

section \<open>The invariant of the state machine\<close>

definition sys_inv :: "lib \<Rightarrow> System \<Rightarrow> bool" where
  "sys_inv L s \<longleftrightarrow>
     world_inv L (sys_inst s) (all_conns s) (all_delayed s) \<and>
     within_limit (client_accounting (sys_inst s))"

lemma sys_inv_world: "sys_inv L s \<Longrightarrow> world_inv L (sys_inst s) (all_conns s) (all_delayed s)"
  and sys_inv_limit: "sys_inv L s \<Longrightarrow> within_limit (client_accounting (sys_inst s))"
  by (simp_all add: sys_inv_def)

lemma all_conns_split:
  "sys_listeners s = ls1 @ l # ls2 \<Longrightarrow> connections l = cs1 @ c # cs2 \<Longrightarrow>
   mset (c # concat (map connections ls1) @ cs1 @ cs2 @ concat (map connections ls2)) = mset (all_conns s)"
  by (simp add: all_conns_def)

lemma all_delayed_split:
  "sys_listeners s = ls1 @ l # ls2 \<Longrightarrow> delayed l = ds1 @ d # ds2 \<Longrightarrow>
   mset (d # concat (map delayed ls1) @ ds1 @ ds2 @ concat (map delayed ls2)) = mset (all_delayed s)"
  by (simp add: all_delayed_def)

lemma sys_invI:
  assumes "world_inv L (sys_inst s) cs ds" and "mset cs = mset (all_conns s)" and "mset ds = mset (all_delayed s)"
    and "within_limit (client_accounting (sys_inst s))"
  shows "sys_inv L s"
  using assms(4) world_perm [OF assms(1)] assms(2,3) by (simp add: sys_inv_def)

lemma new_Instance_result:
  assumes "new_Instance cfg create db_open = Inr (Inr inst)"
  obtains d where "new_Database (if user_database cfg = [] then None else Some (user_database cfg))
        (auto_reload_user_database cfg) create db_open = Inr (Inr d)"
    and "inst = \<lparr>config = cfg, metrics = new_Metrics, database = d, jobs = [], next_id = 0,
                 client_accounting = new_ClientAccountingMap 16 True,
                 pipe_stock = \<lparr>stock_idle = []\<rparr>, knock_listeners = [], knock_requests = []\<rparr>"
proof (cases "new_Database (if user_database cfg = [] then None else Some (user_database cfg))
        (auto_reload_user_database cfg) create db_open")
  case (Inr r)
  with assms that show ?thesis by (cases r) (auto simp: new_Instance_def)
qed (use assms in \<open>simp add: new_Instance_def\<close>)

lemma sys_initI: "Run cfg create db_open socks = Inr s \<Longrightarrow> sys_init s"
  unfolding sys_init_def by blast

lemma Run_Inr_iff:
  "Run cfg create db_open socks = Inr s \<longleftrightarrow>
   (\<exists>inst. new_Instance cfg create db_open = Inr (Inr inst) \<and> Run_setup cfg socks inst = Inr s)"
proof (cases "new_Instance cfg create db_open")
  case (Inr r)
  then show ?thesis by (cases r) (simp_all add: Run_def)
qed (simp add: Run_def)

lemma sys_init_cases:
  assumes "sys_init s"
  obtains cfg d kl where "db_inv d" "auto_reload d = auto_reload_user_database cfg"
    "db_path d = (if user_database cfg = [] then None else Some (user_database cfg))"
    "sys_inst s = \<lparr>config = cfg, metrics = new_Metrics, database = d, jobs = [], next_id = 0,
       client_accounting = new_ClientAccountingMap 16 True, pipe_stock = \<lparr>stock_idle = []\<rparr>,
       knock_listeners = kl, knock_requests = []\<rparr>"
    "sys_listeners s = [new_Listener]"
proof -
  from assms obtain cfg create db_open socks inst where
    I: "new_Instance cfg create db_open = Inr (Inr inst)" and R: "Run_setup cfg socks inst = Inr s"
    by (auto simp: sys_init_def Run_Inr_iff)
  from new_Instance_result [OF I] obtain d where
    d: "new_Database (if user_database cfg = [] then None else Some (user_database cfg))
        (auto_reload_user_database cfg) create db_open = Inr (Inr d)"
    and i: "inst = \<lparr>config = cfg, metrics = new_Metrics, database = d, jobs = [], next_id = 0,
                  client_accounting = new_ClientAccountingMap 16 True,
                  pipe_stock = \<lparr>stock_idle = []\<rparr>, knock_listeners = [], knock_requests = []\<rparr>" .
  have "auto_reload d = auto_reload_user_database cfg \<and>
      db_path d = (if user_database cfg = [] then None else Some (user_database cfg))"
    using d by (auto simp: new_Database_def assign_new_BerkeleyDB_eq Let_def split: if_splits)
  then show thesis
    using that [OF db_inv_new [OF d]] R
    by (auto simp: i Run_setup_def AddPrometheusExporter_def AddListener_def AddKnockListener_def Let_def res_simps
        split: if_splits)
qed

lemma sys_init_inv:
  assumes "sys_init s"
  shows "sys_inv L s"
proof -
  obtain cfg d kl where d: "db_inv d" "auto_reload d = auto_reload_user_database cfg"
    "db_path d = (if user_database cfg = [] then None else Some (user_database cfg))"
    and i: "sys_inst s = \<lparr>config = cfg, metrics = new_Metrics, database = d, jobs = [], next_id = 0,
       client_accounting = new_ClientAccountingMap 16 True, pipe_stock = \<lparr>stock_idle = []\<rparr>,
       knock_listeners = kl, knock_requests = []\<rparr>"
    and l: "sys_listeners s = [new_Listener]"
    using sys_init_cases [OF assms] .
  have "registry (new_ClientAccountingMap 16 True) = Map.empty"
    by (rule ext) (simp add: registry_def find_entry_def new_ClientAccountingMap_def)
  then show ?thesis
    unfolding sys_inv_def i
    using d by (simp add: l world_inv_def all_conns_def all_delayed_def
        new_Listener_def accs_inv_def accs_def jobs_inv_def knocks_inv_def one_job_def count_inv_def
        new_Metrics_def db_ok_def stock_clean_def within_limit_def wf_map_def registered_def
        new_ClientAccountingMap_def)
qed

section \<open>Starting the program\<close>

text \<open>Which of its preparations have to succeed.\<close>

definition can_run :: "Config \<Rightarrow> int \<times> nat \<Rightarrow> (string \<Rightarrow> int) \<Rightarrow> sockets \<Rightarrow> bool" where
  "can_run cfg create db_open socks \<longleftrightarrow>
     (user_database cfg = [] \<or> auto_reload_user_database cfg \<or> (fst create = 0 \<and> db_open (user_database cfg) = 0)) \<and>
     (bind_address (prometheus_exporter cfg) \<noteq> AddrNull \<longrightarrow> so_exporter socks = None) \<and>
     so_listener socks = None \<and>
     (bind_address (knock_listener cfg) \<noteq> AddrNull \<longrightarrow> so_knock socks = None)"

lemma new_Instance_starts:
  "(\<exists>inst. new_Instance cfg create db_open = Inr (Inr inst) \<and> config inst = cfg \<and> knock_listeners inst = []) \<and>
     (user_database cfg = [] \<or> auto_reload_user_database cfg \<or> (fst create = 0 \<and> db_open (user_database cfg) = 0)) \<or>
   (\<exists>e. new_Instance cfg create db_open = Inr (Inl e)) \<and>
     \<not> (user_database cfg = [] \<or> auto_reload_user_database cfg \<or> (fst create = 0 \<and> db_open (user_database cfg) = 0))"
  by (auto simp: new_Instance_def new_Database_def assign_new_BerkeleyDB_eq Let_def split: if_splits)

lemma Run_result:
  "if can_run cfg create db_open socks
   then (\<exists>s. Run cfg create db_open socks = Inr s \<and> config (sys_inst s) = cfg \<and> sys_listeners s = [new_Listener] \<and>
          (RequireKnock (sys_inst s) \<longleftrightarrow> bind_address (knock_listener cfg) \<noteq> AddrNull) \<and>
          (sys_exporter s \<longleftrightarrow> bind_address (prometheus_exporter cfg) \<noteq> AddrNull) \<and> \<not> sys_down s)
   else (\<exists>e. Run cfg create db_open socks = Inl (Thrown e))"
  using new_Instance_starts [of cfg create db_open]
  by (cases "so_exporter socks"; cases "so_listener socks"; cases "so_knock socks")
    (auto simp: can_run_def Run_def Run_setup_def AddPrometheusExporter_def AddListener_def AddKnockListener_def
      RequireKnock_def Let_def)

section \<open>Faults\<close>

text \<open>
  How a password check can fail: there was no database when the handle was read, the database it
  belongs to was closed in the meantime, or libdb reports an error.
\<close>

definition check_fault ::
    "lib \<Rightarrow> (nat \<Rightarrow> string \<Rightarrow> nat \<Rightarrow> get_answer) \<Rightarrow> Database \<Rightarrow> 'cb CheckCredentialsJob \<Rightarrow> fault \<Rightarrow> bool" where
  "check_fault L G d j f \<longleftrightarrow>
     (db (job_database j d) = None \<and> f = AssertFailure ''BerkeleyDB.cxx'' 35) \<or>
     (\<exists>h. job_handle j = Some (Some h) \<and> db d \<noteq> Some h \<and> f = UseAfterFree ''BerkeleyDB.cxx'' 48) \<or>
     (\<exists>h ret. db (job_database j d) = Some h \<and>
        G h (map (ToUpperASCII L) (job_username j)) (crypto_pwhash_STRBYTES L) = DbError ret \<and>
        f = StdTerminate ''Database.cxx'' 140)"

text \<open>How the daemon can fail.\<close>

definition sys_fault :: "lib \<Rightarrow> (nat \<Rightarrow> string \<Rightarrow> nat \<Rightarrow> get_answer) \<Rightarrow> System \<Rightarrow> sys_event \<Rightarrow> fault \<Rightarrow> bool" where
  "sys_fault L G s e f =
    (case e of
       SysConn ev \<Rightarrow> (\<exists>c \<in> set (all_conns s). known_fault L ev c f)
     | SysDatagram now reload env st payload address \<Rightarrow>
         (\<exists>d x. CheckCredentials reload (database (sys_inst s)) = Inr (d, CheckThrows x)) \<and>
         f = StdTerminate ''KnockListener.cxx'' 43
     | SysJobRun i \<Rightarrow> (\<exists>j. find_job i (jobs (sys_inst s)) = Some j \<and> check_fault L G (database (sys_inst s)) j f)
     | _ \<Rightarrow> False)"

lemma known_fault_no_UAF: "known_fault L ev c f \<Longrightarrow> f \<noteq> UseAfterFree file line"
  by (cases ev) (auto simp: known_fault_def)

lemma job_Run_result:
  assumes "db_inv d" and "find_job i q = Some j"
  shows "(\<exists>r. job_Run L G d i q = Inr (set_job (j\<lparr>job_result := r, job_stage := JobDone\<rparr>) q) \<and>
        CheckPassword L G (job_username j) (job_password j) (job_database j d) = Inr r) \<or>
    (\<exists>f. job_Run L G d i q = Inl f \<and> check_fault L G d j f)"
proof -
  have "job_handle j = None \<Longrightarrow> job_database j d = d" by (simp add: job_database_def)
  then have closed: "\<exists>h. job_handle j = Some (Some h) \<and> db d \<noteq> Some h"
    if "db (job_database j d) = Some h" "h \<notin> set (open_handles (job_database j d))" for h
    using that assms(1) by (cases "job_handle j") (auto simp: db_inv_def job_database_def)
  show ?thesis
    using assms closed
    by (cases "db (job_database j d)"; cases "length (job_username j) > 30";
        cases "G (the (db (job_database j d))) (map (ToUpperASCII L) (job_username j)) (crypto_pwhash_STRBYTES L)")
      (auto simp: job_Run_def CheckPassword_def BerkeleyDB_Get_def noexcept_def Let_def check_fault_def)
qed

text \<open>A state or a fault that is expected.\<close>

definition good :: "lib \<Rightarrow> (nat \<Rightarrow> string \<Rightarrow> nat \<Rightarrow> get_answer) \<Rightarrow> System \<Rightarrow> sys_event \<Rightarrow> fault + System \<Rightarrow> bool" where
  "good L G s e r = (case r of Inl f \<Rightarrow> sys_fault L G s e f | Inr t \<Rightarrow> sys_inv L t)"

lemma Shutdown_frame [frame, simp]:
  "registry (ClientAccountingMap_Shutdown m) = registry m"
  "wf_map (ClientAccountingMap_Shutdown m) = wf_map m"
  "max_connections (ClientAccountingMap_Shutdown m) = max_connections m"
proof -
  show "registry (ClientAccountingMap_Shutdown m) = registry m"
    by (rule registry_cong) (simp add: ClientAccountingMap_Shutdown_def)
qed (simp_all add: ClientAccountingMap_Shutdown_def wf_map_def)

context event_lib
begin

lemma conn_world:
  assumes W: "world_inv L inst (c # cs) ds" and lim: "within_limit (client_accounting inst)"
    and "\<not> is_Checked e" and "deliverable L e c" and "io_ok L e inst c"
  shows "ends (conn_handle L e inst c) (known_fault L e c)
    (\<lambda>inst' x. world_inv L inst' (survivors x @ cs) ds \<and> within_limit (client_accounting inst'))"
proof -
  note ok = world_inst_ok [OF W]
  have "ends (conn_handle L e inst c) (known_fault L e c) (effect L False (event_io e) inst c)"
    using conn_handle_effect [OF ok(1,3) _ assms(4,5)] ok(2) assms(3) by auto
  then show ?thesis
  proof (rule ends_weaken)
    fix inst' x
    assume E: "effect L False (event_io e) inst c inst' x"
    show "world_inv L inst' (survivors x @ cs) ds \<and> within_limit (client_accounting inst')"
    proof (cases x)
      case (Live c')
      with E have l: "live_effect L False (event_io e) inst c inst' c'" by (simp add: effect_def)
      with lim have "within_limit (client_accounting inst')" by (simp add: live_effect_def within_limit_def)
      with Live world_live [OF W l] show ?thesis by (simp add: survivors_def)
    next
      case (Destroyed c')
      with E have d: "dead_effect L False (event_io e) inst c inst' c'" by (simp add: effect_def)
      have core: "world_core L inst (c # cs) ds" "\<forall>c \<in> set cs. conn_inv L (config inst) c"
        using W by (simp_all add: world_inv_core)
      note D = core_dead [OF core(1) d refl refl]
      show ?thesis
        using D core(2) lim Destroyed by (simp add: survivors_def world_inv_core)
    qed
  qed
qed

text \<open>The result of a credentials check, delivered to its connection.\<close>

lemma checked_world:
  assumes W: "world_inv L inst (c # cs) ds" and lim: "within_limit (client_accounting inst)"
    and i: "cancel_ptr c = Some i"
  shows "ends (OnCheckCredentials L io user r (inst\<lparr>jobs := delete_job i (jobs inst)\<rparr>) c) (\<lambda>f. False)
    (\<lambda>inst' x. world_inv L inst' (survivors x @ cs) ds \<and> within_limit (client_accounting inst'))"
proof -
  let ?i = "inst\<lparr>jobs := delete_job i (jobs inst)\<rparr>"
  note ok = world_inst_ok [OF W]
  have ok': "inst_ok ?i c" "conn_inv L (config ?i) c" using ok(1,3) by (simp_all add: inst_ok_def)
  have core: "world_core L ?i (c\<lparr>cancel_ptr := None\<rparr> # cs) ds"
    "\<forall>c \<in> set cs. conn_inv L (config inst) c"
    using W core_job_gone [OF _ i] by (simp_all add: world_inv_core)
  from OnCheckCredentials_event [OF ok'] i
  have "ends (OnCheckCredentials L io user r ?i c) (\<lambda>f. False) (effect L True io ?i c)" by simp
  then show ?thesis
  proof (rule ends_weaken)
    fix inst' x
    assume E: "effect L True io ?i c inst' x"
    show "world_inv L inst' (survivors x @ cs) ds \<and> within_limit (client_accounting inst')"
    proof (cases x)
      case (Live c')
      with E have l: "live_effect L True io ?i c inst' c'" by (simp add: effect_def)
      have "world_core L inst' (c' # cs) ds"
        using l core(1) accs_inv_registry [of "client_accounting inst" "next_id inst" "accs (c # cs) ds" "client_accounting inst'"]
          jobs_inv_same [of L "jobs ?i" "next_id inst" "c\<lparr>cancel_ptr := None\<rparr>" cs c']
        by (auto simp: world_core_def live_effect_def accs_def count_inv_def db_ok_def db_extends_def server_count_def algebra_simps)
      with l lim core(2) Live show ?thesis
        by (auto simp: survivors_def world_inv_core live_effect_def within_limit_def)
    next
      case (Destroyed c')
      with E have d: "dead_effect L True io ?i c inst' c'" by (simp add: effect_def)
      have s: "accounting (c\<lparr>cancel_ptr := None\<rparr>) = accounting c" "outgoing (c\<lparr>cancel_ptr := None\<rparr>) = outgoing c"
        by simp_all
      note D = core_dead [OF core(1) d s]
      show ?thesis
        using D core(2) lim Destroyed by (simp add: survivors_def world_inv_core)
    qed
  qed
qed

lemma good_put_conn:
  assumes "ends m F (\<lambda>inst' x. world_inv L inst' (survivors x @ cs) ds \<and> within_limit (client_accounting inst'))"
    and "\<And>f. F f \<Longrightarrow> sys_fault L G s e f"
    and "mset cs = mset (concat (map connections ls1) @ cs1 @ cs2 @ concat (map connections ls2))"
    and "mset ds = mset (concat (map delayed (ls1 @ l # ls2)))"
  shows "good L G s e (put_listener s ls1 ls2 (put_conn l cs1 cs2 m))"
proof (cases m)
  case (Inl f)
  with assms(1,2) show ?thesis by (simp add: good_def put_listener_def put_conn_def)
next
  case (Inr r)
  obtain inst' x where r: "r = (inst', x)" by (cases r)
  let ?t = "s\<lparr>sys_inst := inst', sys_listeners := ls1 @ l\<lparr>connections := cs1 @ survivors x @ cs2\<rparr> # ls2\<rparr>"
  from Inr r assms(1) have W: "world_inv L inst' (survivors x @ cs) ds" "within_limit (client_accounting inst')"
    by simp_all
  have "sys_inv L ?t"
    by (rule sys_invI [OF _ _ _ , of L ?t "survivors x @ cs" ds])
      (use W assms(3,4) in \<open>simp_all add: all_conns_def all_delayed_def\<close>)
  with Inr r show ?thesis by (simp add: good_def put_listener_def put_conn_def)
qed

lemma job_Done_owner:
  assumes W: "world_inv L inst cs ds" and j: "find_job i (jobs inst) = Some j"
    and D: "job_Done i (jobs inst) = Inr (Some (CbConnection k, user, r), q)"
  shows "q = delete_job i (jobs inst)"
    and "\<exists>c \<in> set cs. acc_id (accounting c) = k \<and> cancel_ptr c = Some i \<and> linked L c j"
proof -
  from j D have d: "\<not> job_canceled j" "job_callback j = CbConnection k" "q = delete_job i (jobs inst)"
    by (simp_all add: job_Done_def split: if_splits)
  then show "q = delete_job i (jobs inst)" by simp
  from find_job_id [OF j] have "j \<in> set (jobs inst)" "job_id j = i" by auto
  with d world_parts(2) [OF W] show "\<exists>c \<in> set cs. acc_id (accounting c) = k \<and> cancel_ptr c = Some i \<and> linked L c j"
    unfolding jobs_inv_def linked_def by fastforce
qed

lemma conn_unique:
  "distinct (conn_ids (c # cs)) \<Longrightarrow> d \<in> set (c # cs) \<Longrightarrow> acc_id (accounting d) = acc_id (accounting c) \<Longrightarrow> d = c"
  using imageI [of d "set cs" "\<lambda>c. acc_id (accounting c)"] by (auto simp: set_conn_ids)

lemma checked_owner:
  assumes W: "world_inv L inst (c # cs) ds" and j: "find_job i (jobs inst) = Some j"
    and D: "job_Done i (jobs inst) = Inr (Some (CbConnection (acc_id (accounting c)), user, r), q)"
  shows "cancel_ptr c = Some i" and "linked L c j"
proof -
  from job_Done_owner(2) [OF W j D] obtain d where d: "d \<in> set (c # cs)" "acc_id (accounting d) = acc_id (accounting c)"
    "cancel_ptr d = Some i" "linked L d j" by blast
  from conn_unique [OF accs_distinct [OF world_parts(1) [OF W]] d(1,2)] d(3,4)
  show "cancel_ptr c = Some i" and "linked L c j" by simp_all
qed

lemma good_accept:
  assumes inv: "sys_inv L s"
    and a: "\<not> sys_down s"
    "sys_listeners s = ls1 @ l # ls2"
    "length mem = 83"
  shows "good L G s (SysAccept now mem fd address)
      (put_listener s ls1 ls2 (OnAccept L now mem fd address (sys_inst s) l))"
proof -
  note W = sys_inv_world [OF inv] and lim = sys_inv_limit [OF inv]
  obtain i l' cs' ds' where A: "OnAccept L now mem fd address (sys_inst s) l = Inr (i, l')"
    "world_inv L i cs' ds'" "within_limit (client_accounting i)"
    "listener_grows l (all_conns s) (all_delayed s) l' cs' ds'"
    using OnAccept_world [OF W lim a(3), of now fd address l] by blast
  let ?t = "s\<lparr>sys_inst := i, sys_listeners := ls1 @ l' # ls2\<rparr>"
  from A(4) have "mset cs' = mset (all_conns ?t) \<and> mset ds' = mset (all_delayed ?t)"
    by cases (simp_all add: all_conns_def all_delayed_def a(2))
  with A have "sys_inv L ?t" by (intro sys_invI [of L ?t cs' ds']) simp_all
  with A(1) a show ?thesis by (simp add: good_def put_listener_def)
qed

lemma good_conn:
  assumes inv: "sys_inv L s"
    and a: "\<not> sys_down s"
    "sys_listeners s = ls1 @ l # ls2"
    "connections l = cs1 @ c # cs2"
    "\<not> is_Checked ev"
    "deliverable L ev c"
    "io_ok L ev (sys_inst s) c"
  shows "good L G s (SysConn ev)
      (put_listener s ls1 ls2 (put_conn l cs1 cs2 (conn_handle L ev (sys_inst s) c)))"
proof -
  note W = sys_inv_world [OF inv] and lim = sys_inv_limit [OF inv]
  let ?cs = "concat (map connections ls1) @ cs1 @ cs2 @ concat (map connections ls2)"
  have Wc: "world_inv L (sys_inst s) (c # ?cs) (all_delayed s)"
    using world_perm [OF W all_conns_split [OF a(2,3)] refl] .
  have c: "c \<in> set (all_conns s)" by (simp add: all_conns_def a(2,3))
  show ?thesis
    by (rule good_put_conn [OF conn_world [OF Wc lim a(4-6)]])
      (use c a(2) in \<open>auto simp: sys_fault_def all_delayed_def\<close>)
qed

lemma good_delayed_timer:
  assumes inv: "sys_inv L s"
    and a: "\<not> sys_down s"
    "sys_listeners s = ls1 @ l # ls2"
    "delayed l = ds1 @ d # ds2"
    "timer_IsPending L (dc_timer d)"
    "length mem = 83"
  shows "good L G s (SysDelayedTimer now mem)
      (put_listener s ls1 ls2 (Delayed_OnTimer L now mem (sys_inst s) l d (ds1 @ ds2)))"
proof -
  note W = sys_inv_world [OF inv] and lim = sys_inv_limit [OF inv]
  let ?ds = "concat (map delayed ls1) @ ds1 @ ds2 @ concat (map delayed ls2)"
  have Wd: "world_inv L (sys_inst s) (all_conns s) (d # ?ds)"
    using world_perm [OF W refl all_delayed_split [OF a(2,3)]] .
  obtain i c where A: "Delayed_OnTimer L now mem (sys_inst s) l d (ds1 @ ds2) =
      Inr (i, l\<lparr>connections := c # connections l, delayed := ds1 @ ds2\<rparr>)"
    "world_inv L i (c # all_conns s) ?ds" "within_limit (client_accounting i)"
    using Delayed_OnTimer_world [OF Wd lim a(5), of now l "ds1 @ ds2"] by blast
  let ?t = "s\<lparr>sys_inst := i, sys_listeners := ls1 @ l\<lparr>connections := c # connections l, delayed := ds1 @ ds2\<rparr> # ls2\<rparr>"
  have "sys_inv L ?t"
    using A by (intro sys_invI [of L ?t "c # all_conns s" ?ds])
      (simp_all add: all_conns_def all_delayed_def a(2))
  with A(1) a show ?thesis by (simp add: good_def put_listener_def)
qed

lemma good_delayed_hangup:
  assumes inv: "sys_inv L s"
    and a: "\<not> sys_down s"
    "sys_listeners s = ls1 @ l # ls2"
    "delayed l = ds1 @ d # ds2"
    "ev_IsDefined L (dc_socket d)"
  shows "good L G s (SysDelayedHangup now)
      (put_listener s ls1 ls2 (Delayed_OnSocketReady L now (sys_inst s) l d (ds1 @ ds2)))"
proof -
  note W = sys_inv_world [OF inv] and lim = sys_inv_limit [OF inv]
  let ?ds = "concat (map delayed ls1) @ ds1 @ ds2 @ concat (map delayed ls2)"
  have Wd: "world_inv L (sys_inst s) (all_conns s) (d # ?ds)"
    using world_perm [OF W refl all_delayed_split [OF a(2,3)]] .
  obtain i where A: "Delayed_OnSocketReady L now (sys_inst s) l d (ds1 @ ds2) = Inr (i, l\<lparr>delayed := ds1 @ ds2\<rparr>)"
    "world_inv L i (all_conns s) ?ds" "within_limit (client_accounting i)"
    using Delayed_OnSocketReady_world [OF Wd lim, of now l "ds1 @ ds2"] by blast
  let ?t = "s\<lparr>sys_inst := i, sys_listeners := ls1 @ l\<lparr>delayed := ds1 @ ds2\<rparr> # ls2\<rparr>"
  have "sys_inv L ?t"
    using A by (intro sys_invI [of L ?t "all_conns s" ?ds])
      (simp_all add: all_conns_def all_delayed_def a(2))
  with A(1) a show ?thesis by (simp add: good_def put_listener_def)
qed

lemma good_cleanup:
  assumes inv: "sys_inv L s"
    and a: "\<not> sys_down s"
    "timer_IsPending L (cleanup_timer (client_accounting (sys_inst s)))"
  shows "good L G s (SysCleanup now)
      (Inr (s\<lparr>sys_inst := (sys_inst s)
      \<lparr>client_accounting := OnCleanupTimer L now (client_accounting (sys_inst s))\<rparr>\<rparr>))"
proof -
  note W = sys_inv_world [OF inv] and lim = sys_inv_limit [OF inv]
  let ?m = "OnCleanupTimer L now (client_accounting (sys_inst s))"
  from accs_inv_cleanup [OF world_parts(1) [OF W], of L now] lim
    world_accounting(1) [OF W, of ?m "metrics (sys_inst s)"] a
  show ?thesis by (simp add: good_def sys_inv_def all_conns_def all_delayed_def)
qed

lemma good_datagram:
  assumes inv: "sys_inv L s"
    and a: "\<not> sys_down s"
    "st \<in> set (knock_listeners (sys_inst s))"
    "length payload \<le> kl_max_payload st"
  shows "good L G s (SysDatagram now reload env st payload address)
      (put_inst s (OnUdpDatagram L now reload env st payload address (sys_inst s)))"
proof -
  note W = sys_inv_world [OF inv] and lim = sys_inv_limit [OF inv]
  with OnUdpDatagram_world [OF W lim, of now reload env st payload address] show ?thesis
    by (auto simp: good_def put_inst_def sys_inv_def all_conns_def all_delayed_def sys_fault_def)
qed

lemma good_take:
  assumes inv: "sys_inv L s"
    and a: "\<not> sys_down s"
    "job_Take i (jobs (sys_inst s)) = Some q"
  shows "good L G s (SysJobTake i)
      (Inr (s\<lparr>sys_inst := (sys_inst s)\<lparr>jobs := q\<rparr>\<rparr>))"
proof -
  note W = sys_inv_world [OF inv] and lim = sys_inv_limit [OF inv]
  from a obtain j where j: "find_job i (jobs (sys_inst s)) = Some j"
    "q = set_job (j\<lparr>job_stage := JobBusy\<rparr>) (jobs (sys_inst s))"
    by (auto simp: job_Take_def split: option.splits if_splits)
  with world_job_update [OF W, of "j\<lparr>job_stage := JobBusy\<rparr>" j] find_job_id [OF j(1)] lim a
  show ?thesis by (simp add: good_def sys_inv_def all_conns_def all_delayed_def)
qed

lemma good_enter:
  assumes inv: "sys_inv L s"
    and a: "\<not> sys_down s"
    "find_job i (jobs (sys_inst s)) = Some j"
    "job_stage j = JobBusy"
  shows "good L G s (SysJobEnter i)
      (bind_r (job_Enter (database (sys_inst s)) i (jobs (sys_inst s))) (\<lambda>q.
      Inr (s\<lparr>sys_inst := (sys_inst s)\<lparr>jobs := q\<rparr>\<rparr>)))"
proof -
  note W = sys_inv_world [OF inv] and lim = sys_inv_limit [OF inv]
  let ?j = "j\<lparr>job_handle := Some (db (database (sys_inst s)))\<rparr>"
  from world_job_update [OF W, of ?j j] find_job_id [OF a(2)] lim a
  show ?thesis by (simp add: good_def job_Enter_def sys_inv_def all_conns_def all_delayed_def)
qed

lemma good_run:
  assumes inv: "sys_inv L s"
    and a: "\<not> sys_down s"
    "find_job i (jobs (sys_inst s)) = Some j"
    "job_stage j = JobBusy"
  shows "good L G s (SysJobRun i)
      (bind_r (job_Run L G (database (sys_inst s)) i (jobs (sys_inst s))) (\<lambda>q.
      Inr (s\<lparr>sys_inst := (sys_inst s)\<lparr>jobs := q\<rparr>\<rparr>)))"
proof -
  note W = sys_inv_world [OF inv] and lim = sys_inv_limit [OF inv]
  have d: "db_inv (database (sys_inst s))" using world_parts(6) [OF W] by (simp add: db_ok_def)
  have "world_inv L ((sys_inst s)\<lparr>jobs := set_job (j\<lparr>job_result := b, job_stage := JobDone\<rparr>) (jobs (sys_inst s))\<rparr>)
      (all_conns s) (all_delayed s)" for b
    using world_job_update [OF W, of "j\<lparr>job_result := b, job_stage := JobDone\<rparr>" j] find_job_id [OF a(2)] a(2)
    by simp
  with job_Run_result [OF d a(2), of L G] a lim show ?thesis
    by (auto simp: good_def sys_inv_def all_conns_def all_delayed_def sys_fault_def)
qed

lemma good_done_canceled:
  assumes inv: "sys_inv L s"
    and a: "\<not> sys_down s"
    "find_job i (jobs (sys_inst s)) = Some j"
    "job_stage j = JobDone"
    "job_Done i (jobs (sys_inst s)) = Inr (None, q)"
  shows "good L G s (SysJobDone i io env)
      (Inr (s\<lparr>sys_inst := (sys_inst s)\<lparr>jobs := q\<rparr>\<rparr>))"
proof -
  note W = sys_inv_world [OF inv] and lim = sys_inv_limit [OF inv]
  from a have "q = delete_job i (jobs (sys_inst s))" "job_canceled j"
    by (simp_all add: job_Done_def split: if_splits)
  with world_jobs [OF W jobs_inv_delete_other [OF world_parts(2) [OF W] a(2)]
      knocks_inv_delete [OF world_parts(3) [OF W]]] lim a
  show ?thesis by (simp add: good_def sys_inv_def all_conns_def all_delayed_def)
qed

lemma good_done_conn:
  assumes inv: "sys_inv L s"
    and a: "\<not> sys_down s"
    "find_job i (jobs (sys_inst s)) = Some j"
    "job_stage j = JobDone"
    "job_Done i (jobs (sys_inst s)) = Inr (Some (CbConnection k, user, b), q)"
    "sys_listeners s = ls1 @ l # ls2"
    "connections l = cs1 @ c # cs2"
    "acc_id (accounting c) = k"
  shows "good L G s (SysJobDone i io env)
      (put_listener s ls1 ls2 (put_conn l cs1 cs2
      (conn_handle L (Checked io user b) ((sys_inst s)\<lparr>jobs := q\<rparr>) c)))"
proof -
  note W = sys_inv_world [OF inv] and lim = sys_inv_limit [OF inv]
  let ?cs = "concat (map connections ls1) @ cs1 @ cs2 @ concat (map connections ls2)"
  have Wc: "world_inv L (sys_inst s) (c # ?cs) (all_delayed s)"
    using world_perm [OF W all_conns_split [OF a(5,6)] refl] .
  note owner = job_Done_owner [OF Wc a(2,4)]
  from owner(2) obtain d where d: "d \<in> set (c # ?cs)" "acc_id (accounting d) = k" "cancel_ptr d = Some i" by blast
  from conn_unique [OF accs_distinct [OF world_parts(1) [OF Wc]] d(1)] d(2,3) a(7)
  have i: "cancel_ptr c = Some i" by simp
  from checked_world [OF Wc lim i, of io user b]
  have "ends (conn_handle L (Checked io user b) ((sys_inst s)\<lparr>jobs := q\<rparr>) c) (\<lambda>f. False)
     (\<lambda>inst' x. world_inv L inst' (survivors x @ ?cs) (all_delayed s) \<and> within_limit (client_accounting inst'))"
    by (simp add: owner(1))
  then show ?thesis
    by (rule good_put_conn) (auto simp: all_delayed_def a(5))
qed

lemma good_done_dangling:
  assumes inv: "sys_inv L s"
    and a: "\<not> sys_down s"
    "find_job i (jobs (sys_inst s)) = Some j"
    "job_stage j = JobDone"
    "job_Done i (jobs (sys_inst s)) = Inr (Some (CbConnection k, user, b), q)"
    "k \<notin> (\<lambda>c. acc_id (accounting c)) ` set (all_conns s)"
  shows "good L G s (SysJobDone i io env)
      (Inl (UseAfterFree ''Connection.cxx'' 234))"
proof -
  note W = sys_inv_world [OF inv] and lim = sys_inv_limit [OF inv]
  from job_Done_owner(2) [OF W a(2,4)] a(5) show ?thesis by auto
qed

lemma good_done_knock:
  assumes inv: "sys_inv L s"
    and a: "\<not> sys_down s"
    "find_job i (jobs (sys_inst s)) = Some j"
    "job_stage j = JobDone"
    "job_Done i (jobs (sys_inst s)) = Inr (Some (CbKnock this address st, user, b), q)"
    "this \<in> set (knock_requests (sys_inst s))"
  shows "good L G s (SysJobDone i io env)
      (put_inst s (Request_OnCheckCredentials L (io_now io) env this address st user b
      ((sys_inst s)\<lparr>jobs := q\<rparr>)))"
proof -
  note W = sys_inv_world [OF inv] and lim = sys_inv_limit [OF inv]
  from a have d: "\<not> job_canceled j" "job_callback j = CbKnock this address st" "q = delete_job i (jobs (sys_inst s))"
    by (simp_all add: job_Done_def split: if_splits)
  let ?i = "(sys_inst s)\<lparr>jobs := q\<rparr>"
  have Wq: "world_inv L ?i (all_conns s) (all_delayed s)"
    using world_jobs [OF W jobs_inv_delete_other [OF world_parts(2) [OF W] a(2)]
        knocks_inv_delete [OF world_parts(3) [OF W]]] d by simp
  have "keyed L (job_callback j)"
    using world_parts(3) [OF W] find_job_id [OF a(2)] by (simp add: knocks_inv_def)
  with d have key: "ToInteger L address \<noteq> 0" by simp
  obtain i' call where R: "Request_OnCheckCredentials L (io_now io) env this address st user b ?i =
      Inr (delete_request this i', call)" "world_inv L i' (all_conns s) (all_delayed s)"
    "within_limit (client_accounting i')" "knock_requests i' = knock_requests (sys_inst s)" "jobs i' = q"
    "next_id i' = next_id (sys_inst s)"
    by (rule Request_OnCheckCredentials_world [OF Wq _ key, of "io_now io" env this st user b])
      (use lim in auto)
  have "world_inv L (delete_request this i') (all_conns s) (all_delayed s)"
    by (rule world_delete_request [OF R(2)])
      (use R(4-6) knocks_inv_done [OF world_parts(3) [OF W] a(2) d(2)] d(3) in simp)
  with R a show ?thesis
    by (simp add: good_def put_inst_def sys_inv_def all_conns_def all_delayed_def delete_request_def)
qed

lemma good_done_knock_dangling:
  assumes inv: "sys_inv L s"
    and a: "\<not> sys_down s"
    "find_job i (jobs (sys_inst s)) = Some j"
    "job_stage j = JobDone"
    "job_Done i (jobs (sys_inst s)) = Inr (Some (CbKnock this address st, user, b), q)"
    "this \<notin> set (knock_requests (sys_inst s))"
  shows "good L G s (SysJobDone i io env)
      (Inl (UseAfterFree ''KnockListener.cxx'' 87))"
proof -
  note W = sys_inv_world [OF inv] and lim = sys_inv_limit [OF inv]
  from a have "job_callback j = CbKnock this address st" by (simp add: job_Done_def split: if_splits)
  with world_parts(3) [OF W] find_job_id [OF a(2)] a(5)
  show ?thesis by (auto simp: knocks_inv_def)
qed

lemma good_shutdown:
  assumes inv: "sys_inv L s"
    and a: "\<not> sys_down s"
  shows "good L G s (SysShutdown now)
      (OnShutdown L now s)"
proof -
  note W = sys_inv_world [OF inv] and lim = sys_inv_limit [OF inv]
  have "world_inv L ((sys_inst s)\<lparr>knock_listeners := []\<rparr>) (all_conns s) (all_delayed s)"
    using W by (simp add: world_inv_def db_ok_def)
  with destroy_listeners_world [of "(sys_inst s)\<lparr>knock_listeners := []\<rparr>" "sys_listeners s" now] lim
  obtain i where i: "destroy_listeners L now (sys_listeners s) ((sys_inst s)\<lparr>knock_listeners := []\<rparr>) = Inr i"
    "world_inv L i [] []" "within_limit (client_accounting i)" by (auto simp: all_conns_def all_delayed_def)
  let ?m = "ClientAccountingMap_Shutdown (client_accounting i)"
  have "world_inv L (i\<lparr>client_accounting := ?m\<rparr>) [] []" "within_limit ?m"
    using i(2,3) by (simp_all add: world_inv_def accs_inv_def within_limit_def db_ok_def)
  with i(1) a show ?thesis
    by (simp add: good_def OnShutdown_def Let_def sys_inv_def all_conns_def all_delayed_def)
qed

text \<open>Every event leads to a state that satisfies the invariant, or to one of the known faults.\<close>

lemmas good_rules = good_accept good_conn good_delayed_timer good_delayed_hangup good_cleanup good_datagram
  good_take good_enter good_run good_done_canceled good_done_conn good_done_dangling good_done_knock
  good_done_knock_dangling good_shutdown

lemma sys_do_good: "sys_do L G s e r \<Longrightarrow> sys_inv L s \<Longrightarrow> good L G s e r"
  by (induction rule: sys_do.induct) (rule good_rules; assumption)+

lemma sys_machine: "invariant_of sys_init (sys_step L G) (sys_inv L)"
  by unfold_locales (auto simp: sys_step_def good_def intro: sys_init_inv dest: sys_do_good)

end

sublocale event_lib \<subseteq> daemon: invariant_of sys_init "sys_step L G" "sys_inv L" for G
  by (rule sys_machine)

lemmas reach_sys_inv = invariant_of.reach_inv [OF event_lib.sys_machine]

section \<open>Who was let in\<close>

text \<open>
  A password that was verified against the content of one of the files that were opened, and what is
  known about all jobs and connections.
\<close>

definition verified ::
    "lib \<Rightarrow> (nat \<Rightarrow> string \<Rightarrow> nat \<Rightarrow> get_answer) \<Rightarrow> (nat \<times> string) list \<Rightarrow> string \<Rightarrow> string \<Rightarrow> bool" where
  "verified L G files user pass \<longleftrightarrow>
     (\<exists>h file d. (h, file) \<in> set files \<and> db d = Some h \<and> CheckPassword L G user pass d = Inr True)"

abbreviation files :: "Instance \<Rightarrow> (nat \<times> string) list" where
  "files inst \<equiv> opened (database inst)"

definition admitted :: "lib \<Rightarrow> (nat \<Rightarrow> string \<Rightarrow> nat \<Rightarrow> get_answer) \<Rightarrow> Instance \<Rightarrow> Connection \<Rightarrow> bool" where
  "admitted L G inst c \<longleftrightarrow>
     verified L G (files inst) (conn_user L c) (conn_pass L c) \<or> user_database (config inst) = []"

text \<open>The handle a job has read is that of a file that was opened; what it found was found in such a file.\<close>

definition job_auth ::
    "lib \<Rightarrow> (nat \<Rightarrow> string \<Rightarrow> nat \<Rightarrow> get_answer) \<Rightarrow> Instance \<Rightarrow> callback CheckCredentialsJob \<Rightarrow> bool" where
  "job_auth L G inst j \<longleftrightarrow>
     (\<forall>h. job_handle j = Some (Some h) \<longrightarrow> h \<in> fst ` set (files inst)) \<and>
     (job_result j \<longrightarrow> verified L G (files inst) (job_username j) (job_password j))"

definition auth_inv :: "lib \<Rightarrow> (nat \<Rightarrow> string \<Rightarrow> nat \<Rightarrow> get_answer) \<Rightarrow> System \<Rightarrow> bool" where
  "auth_inv L G s \<longleftrightarrow>
     (\<forall>j \<in> set (jobs (sys_inst s)). \<not> sys_down s \<longrightarrow> job_auth L G (sys_inst s) j) \<and>
     (\<forall>c \<in> set (all_conns s). past_check c \<longrightarrow> admitted L G (sys_inst s) c)"

text \<open>
  The same in terms of the libraries only: libsodium accepted the password for the value
  that a file of the user database has for the user name in upper case.
\<close>

definition password_checked ::
    "lib \<Rightarrow> (nat \<Rightarrow> string \<Rightarrow> nat \<Rightarrow> get_answer) \<Rightarrow> Database \<Rightarrow> string \<Rightarrow> string \<Rightarrow> bool" where
  "password_checked L G D user pass \<longleftrightarrow>
     (\<exists>h file v. (h, file) \<in> set (opened D) \<and> user_db_file D file \<and>
        G h (map (ToUpperASCII L) user) (crypto_pwhash_STRBYTES L) = DbFound v \<and> v \<noteq> [] \<and>
        crypto_pwhash_str_verify L (ExtractString v) pass = 0)"

lemma verified_checked: "db_inv D \<Longrightarrow> verified L G (opened D) user pass \<Longrightarrow> password_checked L G D user pass"
  unfolding verified_def password_checked_def CheckPassword_True_iff db_inv_def by fastforce

text \<open>Configuration and opened files as far as the above depends on them.\<close>

definition auth_frame :: "Instance \<Rightarrow> Instance \<Rightarrow> bool" where
  "auth_frame inst inst' \<longleftrightarrow> config inst' = config inst \<and> set (files inst) \<subseteq> set (files inst')"

lemma auth_frameI: "config inst' = config inst \<Longrightarrow> db_extends (database inst) (database inst') \<Longrightarrow> auth_frame inst inst'"
  by (simp add: auth_frame_def db_extends_def)

lemma auth_frame_refl [simp]: "auth_frame inst inst"
  by (simp add: auth_frame_def)

lemma verified_mono: "verified L G fs user pass \<Longrightarrow> set fs \<subseteq> set fs' \<Longrightarrow> verified L G fs' user pass"
  unfolding verified_def by blast

lemma admitted_mono: "admitted L G inst c \<Longrightarrow> auth_frame inst inst' \<Longrightarrow> admitted L G inst' c"
  by (auto simp: admitted_def auth_frame_def intro: verified_mono)

lemma job_auth_mono: "job_auth L G inst j \<Longrightarrow> auth_frame inst inst' \<Longrightarrow> job_auth L G inst' j"
  by (auto simp: job_auth_def auth_frame_def intro: verified_mono)

lemma job_auth_new [simp]: "job_auth L G inst (new_CheckCredentialsJob i user pass cb)"
  by (simp add: job_auth_def new_CheckCredentialsJob_def)

text \<open>No file the daemon looks at for a login has a modification time of 0.\<close>

definition stat_after_epoch :: "reload_env \<Rightarrow> bool" where
  "stat_after_epoch env \<longleftrightarrow> (\<forall>st. re_stat env = Inr st \<longrightarrow> st_mtime st \<noteq> 0)"

fun after_epoch :: "sys_event \<Rightarrow> bool" where
  "after_epoch (SysConn ev) = stat_after_epoch (io_reload (event_io ev))"
| "after_epoch (SysDatagram now reload env nft_set payload address) = stat_after_epoch reload"
| "after_epoch _ = True"

definition auth_step ::
    "lib \<Rightarrow> (nat \<Rightarrow> string \<Rightarrow> nat \<Rightarrow> get_answer) \<Rightarrow> System \<Rightarrow> sys_event \<Rightarrow> System \<Rightarrow> bool" where
  "auth_step L G s e t \<longleftrightarrow> sys_step L G s e t \<and> after_epoch e"

text \<open>Two states of the same check.\<close>

definition same_check :: "'cb CheckCredentialsJob \<Rightarrow> 'cb CheckCredentialsJob \<Rightarrow> bool" where
  "same_check j k \<longleftrightarrow> job_result j = job_result k \<and> job_handle j = job_handle k \<and>
     job_username j = job_username k \<and> job_password j = job_password k"

lemma same_check_refl [simp]: "same_check j j"
  by (simp add: same_check_def)

lemma same_check_member [intro]: "j \<in> J \<Longrightarrow> \<exists>k \<in> J. same_check j k"
  by (auto intro: same_check_refl)

lemma job_auth_same: "same_check j k \<Longrightarrow> job_auth L G inst k \<Longrightarrow> job_auth L G inst j"
  by (simp add: same_check_def job_auth_def)

text \<open>Jobs that continue jobs of an earlier state, or are known to be all right.\<close>

definition jobs_follow ::
    "lib \<Rightarrow> (nat \<Rightarrow> string \<Rightarrow> nat \<Rightarrow> get_answer) \<Rightarrow> Instance \<Rightarrow> Instance \<Rightarrow> bool" where
  "jobs_follow L G inst inst' \<longleftrightarrow>
     (\<forall>j \<in> set (jobs inst'). (\<exists>k \<in> set (jobs inst). same_check j k) \<or> job_auth L G inst j)"

lemma jobs_follow_subset: "set (jobs inst') \<subseteq> set (jobs inst) \<Longrightarrow> jobs_follow L G inst inst'"
  unfolding jobs_follow_def by (meson same_check_refl subsetD)

lemma auth_keep:
  assumes A: "auth_inv L G s" and fr: "auth_frame (sys_inst s) (sys_inst t)" and "\<not> sys_down s"
    and J: "jobs_follow L G (sys_inst s) (sys_inst t)"
    and C: "\<And>c. c \<in> set (all_conns t) \<Longrightarrow> past_check c \<Longrightarrow> c \<in> set (all_conns s) \<or> admitted L G (sys_inst s) c"
  shows "auth_inv L G t"
proof -
  have "job_auth L G (sys_inst t) j" if j: "j \<in> set (jobs (sys_inst t))" for j
  proof -
    have "job_auth L G (sys_inst s) j"
      using J j A assms(3) job_auth_same unfolding jobs_follow_def auth_inv_def by blast
    then show ?thesis using fr by (rule job_auth_mono)
  qed
  moreover have "admitted L G (sys_inst t) c" if c: "c \<in> set (all_conns t)" "past_check c" for c
    using C [OF c] A c(2) admitted_mono [OF _ fr] by (auto simp: auth_inv_def)
  ultimately show ?thesis by (simp add: auth_inv_def)
qed

lemma set_job_result:
  "k \<in> set (set_job j' q) \<Longrightarrow> k \<in> set q \<or> k = j'"
  by (auto simp: set_job_def)

lemma accepts_at_once_open:
  assumes "db_ok inst" and "accepts_at_once env (database inst)" and "stat_after_epoch env"
  shows "user_database (config inst) = []"
proof -
  have "db_inv (database inst)" using assms(1) by (simp add: db_ok_def)
  then show ?thesis
  proof (cases rule: CheckCredentials_cases [of _ env])
    case accepts
    have na: "\<not> auto_reload (database inst)"
    proof
      assume "auto_reload (database inst)"
      with accepts(4) assms(3) show False by (auto simp: stat_after_epoch_def)
    qed
    with accepts(2) assms(1) show ?thesis by (auto simp: db_ok_def db_inv_def split: if_splits)
  qed (use assms(2) in \<open>auto simp: accepts_at_once_def\<close>)
qed

lemma OnCheckCredentials_False:
  "OnCheckCredentials L io user False inst c = Inr (inst', x) \<Longrightarrow> survivors x = []"
  by (auto simp: OnCheckCredentials_def reject_login_def Destroy_def res_simps survivors_def Let_def
      case_prod_beta)

lemma new_Connection_frame:
  "new_Connection L mem k fd address inst = Inr (inst', c) \<Longrightarrow>
   config inst' = config inst \<and> database inst' = database inst \<and> jobs inst' = jobs inst \<and> state c = INITIAL"
  by (cases k) (auto simp: new_Connection_def Let_def res_simps)

lemma Listener_AddConnection_frame:
  "Listener_AddConnection L mem k fd address inst l = Inr (inst', l') \<Longrightarrow>
   config inst' = config inst \<and> database inst' = database inst \<and> jobs inst' = jobs inst \<and>
   (\<exists>c. l' = l\<lparr>connections := c # connections l\<rparr> \<and> state c = INITIAL)"
  by (auto simp: Listener_AddConnection_def res_simps dest: new_Connection_frame)

lemma new_DelayedConnection_frame:
  "new_DelayedConnection L k delay fd address inst = Inr (inst', d) \<Longrightarrow>
   config inst' = config inst \<and> database inst' = database inst \<and> jobs inst' = jobs inst"
  by (auto simp: new_DelayedConnection_def Let_def res_simps)

lemma OnAccept_frame:
  assumes "OnAccept L now mem fd address inst l = Inr (inst', l')"
  shows "config inst' = config inst \<and> database inst' = database inst \<and> jobs inst' = jobs inst \<and>
    (\<forall>c \<in> set (connections l'). c \<in> set (connections l) \<or> state c = INITIAL)"
proof -
  obtain k m where G: "ClientAccountingMap_Get L address (client_accounting inst) = (k, m)" by force
  show ?thesis
  proof (cases k)
    case None
    with assms G Listener_AddConnection_frame [of L mem None fd address "inst\<lparr>client_accounting := m\<rparr>" l inst' l']
    show ?thesis by (auto simp: OnAccept_def GetClientAccounting_def)
  next
    case (Some p)
    with assms G obtain m' where m': "Map_UpdateTokenBucket L now 1 p m = Inr m'"
      by (auto simp: OnAccept_def GetClientAccounting_def res_simps)
    show ?thesis
    proof (cases "find_entry p m'")
      case (Some pc)
      with assms G m' \<open>k = Some p\<close>
        Listener_AddConnection_frame [of L mem k fd address "inst\<lparr>client_accounting := m'\<rparr>" l inst' l']
      show ?thesis
        by (auto simp: OnAccept_def GetClientAccounting_def Let_def res_simps dest!: new_DelayedConnection_frame
            split: if_splits)
    qed (use assms G m' \<open>k = Some p\<close> in \<open>simp add: OnAccept_def GetClientAccounting_def\<close>)
  qed
qed

lemma DelayedConnection_destroy_frame:
  "DelayedConnection_destroy L now inst d = Inr (inst', d') \<Longrightarrow> config inst' = config inst \<and> database inst' = database inst \<and> jobs inst' = jobs inst"
  by (auto simp: DelayedConnection_destroy_def Let_def res_simps)

lemma Delayed_frames:
  "Delayed_OnTimer L now mem inst l d others = Inr (inst', l') \<Longrightarrow>
     config inst' = config inst \<and> database inst' = database inst \<and> jobs inst' = jobs inst \<and>
     (\<forall>c \<in> set (connections l'). c \<in> set (connections l) \<or> state c = INITIAL)"
  "Delayed_OnSocketReady L now inst l d others = Inr (inst', l') \<Longrightarrow>
     config inst' = config inst \<and> database inst' = database inst \<and> jobs inst' = jobs inst \<and> connections l' = connections l"
  by (auto simp: Delayed_OnTimer_def Delayed_OnSocketReady_def Let_def res_simps
      dest!: Listener_AddConnection_frame DelayedConnection_destroy_frame)

lemma Request_frame:
  "Request_OnCheckCredentials L now env this address st user r inst = Inr (inst', call) \<Longrightarrow>
   config inst' = config inst \<and> database inst' = database inst \<and> jobs inst' = jobs inst"
  by (cases "fst (GetClientAccounting L address inst)"; cases r)
    (auto simp: Request_OnCheckCredentials_def GetClientAccounting_def Let_def res_simps delete_request_def
       case_prod_beta)

lemma new_Request_frame:
  assumes "new_Request L now reload env st user pass address inst = Inr (inst', call)" and "db_inv (database inst)"
  shows "auth_frame inst inst' \<and> jobs_follow L G inst inst'"
proof -
  from assms obtain d act where C: "CheckCredentials reload (database inst) = Inr (d, act)"
    by (auto simp: new_Request_def res_simps Let_def)
  from CheckCredentials_frame [OF assms(2) C] have d: "set (opened (database inst)) \<subseteq> set (opened d)"
    by (simp add: db_extends_def)
  show ?thesis
    using assms(1) C d
    by (cases act)
      (auto simp: new_Request_def res_simps Let_def queue_Add_def auth_frame_def jobs_follow_def dest!: Request_frame)
qed

lemma OnUdpDatagram_frame:
  assumes "OnUdpDatagram L now reload env st payload address inst = Inr (inst', call)" and "db_inv (database inst)"
  shows "auth_frame inst inst' \<and> jobs_follow L G inst inst'"
proof -
  obtain k m where K: "ClientAccountingMap_Get L address (client_accounting inst) = (k, m)" by force
  let ?i = "inst\<lparr>client_accounting := m\<rparr>"
  consider "config inst' = config inst \<and> database inst' = database inst \<and> jobs inst' = jobs inst"
    | user pass where "new_Request L now reload env (kl_nft_set st) user pass address ?i = Inr (inst', call)"
    using assms(1) K
    by (cases k) (auto simp: OnUdpDatagram_def GetClientAccounting_def Let_def res_simps split: if_splits)
  then show ?thesis
  proof cases
    case 1
    then show ?thesis by (simp add: auth_frame_def jobs_follow_subset)
  next
    case 2
    from new_Request_frame [OF this, of G] assms(2) show ?thesis
      by (simp add: auth_frame_def jobs_follow_def job_auth_def)
  qed
qed

text \<open>What one handler of a connection does to the admitted connections and the results of jobs.\<close>

lemma job_Cancel_member:
  assumes "job_Cancel L i q = Inr q'" and "j \<in> set q'"
  shows "\<exists>k \<in> set q. j = k \<or> j = k\<lparr>job_canceled := True\<rparr>"
proof (cases "find_job i q")
  case (Some k)
  from find_job_id [OF Some] have k: "k \<in> set q" by simp
  have "j \<in> set q \<or> j = k\<lparr>job_canceled := True\<rparr>"
    using assms Some set_job_result [of j "k\<lparr>job_canceled := True\<rparr>" q]
    by (auto simp: job_Cancel_def delete_job_def split: if_splits)
  with k show ?thesis by blast
qed (use assms in \<open>simp add: job_Cancel_def\<close>)

lemma dead_effect_auth:
  assumes "dead_effect L checked io inst c inst' c'"
  shows "auth_frame inst inst' \<and> jobs_follow L G inst inst'"
proof -
  from assms obtain inst1 c1 where q: "jobs inst1 = jobs inst" "auth_frame inst inst1"
    and D: "Connection_destroy L (io_now io) inst1 c1 = Inr (inst', c')"
    by (auto simp: dead_effect_def quiet_def intro: auth_frameI)
  have "auth_frame inst inst'" using q(2) Connection_destroy_fields(5,7) [OF D] by (simp add: auth_frame_def)
  moreover have "\<exists>k \<in> set (jobs inst). same_check j k" if "j \<in> set (jobs inst')" for j
  proof (cases "cancel_ptr c1")
    case (Some i)
    with Connection_destroy_fields(1) [OF D] q have "job_Cancel L i (jobs inst) = Inr (jobs inst')" by simp
    from job_Cancel_member [OF this that] show ?thesis by (auto simp: same_check_def)
  qed (use Connection_destroy_fields(1) [OF D] q that in \<open>auto intro: same_check_refl\<close>)
  ultimately show ?thesis by (simp add: jobs_follow_def)
qed

lemma live_effect_auth:
  assumes "live_effect L checked io inst c inst' c'"
  shows "auth_frame inst inst' \<and> jobs_follow L G inst inst'"
proof -
  have "auth_frame inst inst'" using assms by (simp add: live_effect_def auth_frameI)
  moreover have "j \<in> set (jobs inst) \<or> job_auth L G inst j" if "j \<in> set (jobs inst')" for j
    using assms that by (auto simp: live_effect_def queue_Add_def queued_job_def Let_def split: if_splits)
  ultimately show ?thesis unfolding jobs_follow_def by (meson same_check_refl)
qed

lemma effect_auth:
  assumes E: "effect L checked io inst c inst' x" and "db_ok inst"
    and old: "past_check c \<Longrightarrow> admitted L G inst c"
    and chk: "checked \<Longrightarrow> survivors x \<noteq> [] \<Longrightarrow>
      verified L G (files inst) (conn_user L c) (conn_pass L c) \<and> state c \<noteq> INITIAL"
    and epoch: "checked \<or> stat_after_epoch (io_reload io)"
  shows "auth_frame inst inst' \<and> jobs_follow L G inst inst' \<and>
    (\<forall>c' \<in> set (survivors x). past_check c' \<longrightarrow> admitted L G inst c')"
proof (cases x)
  case (Destroyed c')
  with E have "dead_effect L checked io inst c inst' c'" by (simp add: effect_def)
  from dead_effect_auth [OF this, of G] Destroyed show ?thesis by (simp add: survivors_def)
next
  case (Live c')
  with E have l: "live_effect L checked io inst c inst' c'" by (simp add: effect_def)
  have same: "conn_user L c' = conn_user L c" "conn_pass L c' = conn_pass L c" if "state c \<noteq> INITIAL"
    using l that by (simp_all add: live_effect_def conn_user_def conn_pass_def)
  have "admitted L G inst c'" if "past_check c'"
  proof -
    from l that consider "past_check c" | "checked" | "\<not> checked" "accepts_at_once (io_reload io) (database inst)"
      by (auto simp: live_effect_def)
    then show ?thesis
    proof cases
      case 1
      with old same show ?thesis by (simp add: admitted_def past_check_def)
    next
      case 2
      with chk Live same show ?thesis by (simp add: admitted_def survivors_def)
    next
      case 3
      with accepts_at_once_open [OF assms(2) 3(2)] epoch show ?thesis by (simp add: admitted_def)
    qed
  qed
  with live_effect_auth [OF l, of G] Live show ?thesis by (simp add: survivors_def)
qed

text \<open>The steps, one after the other.\<close>

lemma effect_config:
  assumes "effect L checked io inst c inst' x"
  shows "config inst' = config inst"
  using assms dead_effect_auth
  by (cases x) (auto simp: effect_def live_effect_def auth_frame_def)

lemma put_listener_step:
  assumes "put_listener s ls1 ls2 r = Inr t"
  obtains inst l where "r = Inr (inst, l)" "t = s\<lparr>sys_inst := inst, sys_listeners := ls1 @ l # ls2\<rparr>"
  using assms by (auto simp: put_listener_def res_simps)

lemma auth_listener:
  assumes inv: "auth_inv L G s" "\<not> sys_down s" and s: "sys_listeners s = ls1 @ l # ls2"
    and t: "t = s\<lparr>sys_inst := inst, sys_listeners := ls1 @ l' # ls2\<rparr>"
    and fr: "auth_frame (sys_inst s) inst" "jobs_follow L G (sys_inst s) inst"
    "\<And>c. c \<in> set (connections l') \<Longrightarrow> past_check c \<Longrightarrow> c \<in> set (connections l) \<or> admitted L G (sys_inst s) c"
  shows "auth_inv L G t"
proof (rule auth_keep [OF inv(1) _ inv(2)])
  fix c
  assume "c \<in> set (all_conns t)" and "past_check c"
  with s t fr(3) [of c] show "c \<in> set (all_conns s) \<or> admitted L G (sys_inst s) c"
    by (auto simp: all_conns_def)
qed (use t fr in auto)

lemma auth_put_listener:
  assumes inv: "auth_inv L G s" "\<not> sys_down s" and s: "sys_listeners s = ls1 @ l # ls2"
    and H: "Inr t = put_listener s ls1 ls2 r"
    and fr: "\<And>inst l'. r = Inr (inst, l') \<Longrightarrow> config inst = config (sys_inst s) \<and>
       database inst = database (sys_inst s) \<and> jobs inst = jobs (sys_inst s) \<and>
       (\<forall>c \<in> set (connections l'). c \<in> set (connections l) \<or> state c = INITIAL)"
  shows "auth_inv L G t"
proof -
  from H [symmetric] obtain inst l' where p: "r = Inr (inst, l')"
    "t = s\<lparr>sys_inst := inst, sys_listeners := ls1 @ l' # ls2\<rparr>" by (rule put_listener_step)
  show ?thesis
    by (rule auth_listener [OF inv s p(2)])
      (use fr [OF p(1)] in \<open>auto simp: past_check_def auth_frame_def intro: jobs_follow_subset\<close>)
qed

lemma auth_put_inst:
  assumes inv: "auth_inv L G s" "\<not> sys_down s" and H: "Inr t = put_inst s r"
    and fr: "\<And>inst x. r = Inr (inst, x) \<Longrightarrow> auth_frame (sys_inst s) inst \<and> jobs_follow L G (sys_inst s) inst"
  shows "auth_inv L G t"
proof -
  from H [symmetric] obtain inst x where p: "r = Inr (inst, x)" "t = s\<lparr>sys_inst := inst\<rparr>"
    by (auto simp: put_inst_def res_simps)
  show ?thesis
    by (rule auth_keep [OF inv(1) _ inv(2)]) (use fr [OF p(1)] p(2) in \<open>auto simp: all_conns_def\<close>)
qed

lemma auth_conn:
  assumes inv: "auth_inv L G s" "\<not> sys_down s"
    and s: "sys_listeners s = ls1 @ l # ls2" "connections l = cs1 @ c # cs2"
    and H: "put_listener s ls1 ls2 (put_conn l cs1 cs2 m) = Inr t"
    and m: "\<And>inst' x. m = Inr (inst', x) \<Longrightarrow> auth_frame (sys_inst s) inst' \<and> jobs_follow L G (sys_inst s) inst' \<and>
       (\<forall>c' \<in> set (survivors x). past_check c' \<longrightarrow> admitted L G (sys_inst s) c')"
  shows "auth_inv L G t"
proof -
  from H obtain inst' l' where p: "put_conn l cs1 cs2 m = Inr (inst', l')"
    and t: "t = s\<lparr>sys_inst := inst', sys_listeners := ls1 @ l' # ls2\<rparr>" by (rule put_listener_step)
  from p obtain x where x: "m = Inr (inst', x)" "l' = l\<lparr>connections := cs1 @ survivors x @ cs2\<rparr>"
    by (auto simp: put_conn_def res_simps)
  show ?thesis
    by (rule auth_listener [OF inv s(1) t]) (use m [OF x(1)] x(2) s(2) in auto)
qed

lemma world_of_conn:
  assumes "sys_inv L s" and "sys_listeners s = ls1 @ l # ls2" and "connections l = cs1 @ c # cs2"
  shows "world_inv L (sys_inst s) (c # concat (map connections ls1) @ cs1 @ cs2 @ concat (map connections ls2)) (all_delayed s)"
  using world_perm [OF sys_inv_world [OF assms(1)] all_conns_split [OF assms(2,3)] refl] .

lemma auth_members:
  assumes "sys_inv L s" and "auth_inv L G s" and "sys_listeners s = ls1 @ l # ls2" and "connections l = cs1 @ c # cs2"
  shows "past_check c \<Longrightarrow> admitted L G (sys_inst s) c" and "db_ok (sys_inst s)"
    and "world_inv L (sys_inst s) (c # concat (map connections ls1) @ cs1 @ cs2 @ concat (map connections ls2)) (all_delayed s)"
proof -
  have "c \<in> set (all_conns s)" using assms(3,4) by (simp add: all_conns_def)
  with assms(2) show "past_check c \<Longrightarrow> admitted L G (sys_inst s) c" by (simp add: auth_inv_def)
  show "db_ok (sys_inst s)" using world_parts(6) [OF sys_inv_world [OF assms(1)]] .
qed (rule world_of_conn [OF assms(1,3,4)])

lemma db_inv_reached: "sys_inv L s \<Longrightarrow> db_inv (database (sys_inst s))"
  using world_parts(6) [OF sys_inv_world] by (simp add: db_ok_def)

lemma auth_set_job:
  assumes "auth_inv L G s" and "\<not> sys_down s" and "job_auth L G (sys_inst s) j"
  shows "auth_inv L G (s\<lparr>sys_inst := (sys_inst s)\<lparr>jobs := set_job j (jobs (sys_inst s))\<rparr>\<rparr>)"
  by (rule auth_keep [OF assms(1) _ assms(2)])
    (use assms(3) in \<open>auto simp: all_conns_def auth_frame_def jobs_follow_def dest!: set_job_result\<close>)

text \<open>A check looks into a file that was opened.\<close>

lemma job_auth_run:
  assumes "db_inv (database inst)" and "job_auth L G inst j"
    and "CheckPassword L G (job_username j) (job_password j) (job_database j (database inst)) = Inr b"
  shows "job_auth L G inst (j\<lparr>job_result := b, job_stage := JobDone\<rparr>)"
proof -
  have "verified L G (files inst) (job_username j) (job_password j)" if "b"
  proof -
    from assms(3) that obtain h where h: "db (job_database j (database inst)) = Some h"
      by (cases "db (job_database j (database inst))")
        (auto simp: CheckPassword_def BerkeleyDB_Get_def noexcept_def Let_def split: if_splits)
    with assms(1,2) have "h \<in> fst ` set (files inst)"
      by (cases "job_handle j") (auto simp: job_database_def job_auth_def db_inv_def)
    with h assms(3) that show ?thesis unfolding verified_def by force
  qed
  with assms(2) show ?thesis by (simp add: job_auth_def)
qed

context event_lib
begin

lemma auth_conn_event:
  assumes I: "sys_inv L s" and A: "auth_inv L G s"
    and a: "\<not> sys_down s" "sys_listeners s = ls1 @ l # ls2" "connections l = cs1 @ c # cs2"
    "\<not> is_Checked ev" "deliverable L ev c" "io_ok L ev (sys_inst s) c" "stat_after_epoch (io_reload (event_io ev))"
    and H: "put_listener s ls1 ls2 (put_conn l cs1 cs2 (conn_handle L ev (sys_inst s) c)) = Inr t"
  shows "auth_inv L G t"
proof (rule auth_conn [OF A a(1-3) H])
  fix inst' x
  assume h: "conn_handle L ev (sys_inst s) c = Inr (inst', x)"
  note M = auth_members [OF I A a(2,3)]
  note ok = world_inst_ok [OF M(3)]
  from conn_handle_effect [OF ok(1,3) _ a(5,6)] ok(2) a(4) h
  have "effect L False (event_io ev) (sys_inst s) c inst' x" by simp
  from effect_auth [OF this M(2,1)] a(7)
  show "auth_frame (sys_inst s) inst' \<and> jobs_follow L G (sys_inst s) inst' \<and>
       (\<forall>c' \<in> set (survivors x). past_check c' \<longrightarrow> admitted L G (sys_inst s) c')" by blast
qed

lemma auth_checked:
  assumes I: "sys_inv L s" and A: "auth_inv L G s"
    and a: "\<not> sys_down s" "find_job i (jobs (sys_inst s)) = Some j"
    "job_Done i (jobs (sys_inst s)) = Inr (Some (CbConnection k, user, r), q)"
    "sys_listeners s = ls1 @ l # ls2" "connections l = cs1 @ c # cs2" "acc_id (accounting c) = k"
    and H: "put_listener s ls1 ls2 (put_conn l cs1 cs2
        (conn_handle L (Checked io user r) ((sys_inst s)\<lparr>jobs := q\<rparr>) c)) = Inr t"
  shows "auth_inv L G t"
proof (rule auth_conn [OF A a(1,4,5) H])
  fix inst' x
  assume h: "conn_handle L (Checked io user r) ((sys_inst s)\<lparr>jobs := q\<rparr>) c = Inr (inst', x)"
  let ?i = "(sys_inst s)\<lparr>jobs := q\<rparr>"
  note M = auth_members [OF I A a(4,5)]
  note owner = job_Done_owner [OF M(3) a(2,3)] and c = checked_owner [OF M(3) a(2) a(3) [folded a(6)]]
  note ok = world_inst_ok [OF M(3)]
  have ok': "inst_ok ?i c" "conn_inv L (config ?i) c" using ok(1,3) by (simp_all add: inst_ok_def)
  from OnCheckCredentials_event [OF ok', of io user r] h c(1) have E: "effect L True io ?i c inst' x" by simp
  have "verified L G (files (sys_inst s)) (conn_user L c) (conn_pass L c) \<and> state c \<noteq> INITIAL" if "survivors x \<noteq> []"
  proof -
    have "r" using h that OnCheckCredentials_False [of L io user ?i c inst' x] by (cases r) auto
    then have "job_result j" using a(2,3) by (auto simp: job_Done_def split: if_splits)
    then have "verified L G (files (sys_inst s)) (job_username j) (job_password j)"
      using A a(1) find_job_id [OF a(2)] by (simp add: auth_inv_def job_auth_def)
    with c ok(3) show ?thesis by (auto simp: linked_def conn_inv_def)
  qed
  with effect_auth [OF E, of G] M(1,2)
  have "auth_frame ?i inst' \<and> jobs_follow L G ?i inst' \<and>
     (\<forall>c' \<in> set (survivors x). past_check c' \<longrightarrow> admitted L G ?i c')"
    by (simp add: db_ok_def admitted_def)
  moreover have "set (jobs ?i) \<subseteq> set (jobs (sys_inst s))" by (auto simp: owner(1) delete_job_def)
  ultimately show "auth_frame (sys_inst s) inst' \<and> jobs_follow L G (sys_inst s) inst' \<and>
       (\<forall>c' \<in> set (survivors x). past_check c' \<longrightarrow> admitted L G (sys_inst s) c')"
    unfolding auth_frame_def admitted_def jobs_follow_def job_auth_def by (simp add: subset_iff) blast
qed

text \<open>The three steps of a worker with a job.\<close>

lemma auth_found_job:
  assumes "auth_inv L G s" and "\<not> sys_down s" and "find_job i (jobs (sys_inst s)) = Some j"
  shows "job_auth L G (sys_inst s) j"
  using assms find_job_id [OF assms(3)] by (simp add: auth_inv_def)

lemma auth_worker:
  assumes A: "auth_inv L G s" and up: "\<not> sys_down s" and inv: "db_inv (database (sys_inst s))"
  shows "job_Take i (jobs (sys_inst s)) = Some q \<Longrightarrow> auth_inv L G (s\<lparr>sys_inst := (sys_inst s)\<lparr>jobs := q\<rparr>\<rparr>)"
    and "job_Enter (database (sys_inst s)) i (jobs (sys_inst s)) = Inr q
      \<Longrightarrow> auth_inv L G (s\<lparr>sys_inst := (sys_inst s)\<lparr>jobs := q\<rparr>\<rparr>)"
    and "job_Run L G (database (sys_inst s)) i (jobs (sys_inst s)) = Inr q
      \<Longrightarrow> auth_inv L G (s\<lparr>sys_inst := (sys_inst s)\<lparr>jobs := q\<rparr>\<rparr>)"
proof -
  note found = auth_found_job [OF A up] and put = auth_set_job [OF A up]
  show "auth_inv L G (s\<lparr>sys_inst := (sys_inst s)\<lparr>jobs := q\<rparr>\<rparr>)" if "job_Take i (jobs (sys_inst s)) = Some q"
    using that by (auto simp: job_Take_def job_auth_def split: option.splits if_splits dest!: found intro!: put)
  show "auth_inv L G (s\<lparr>sys_inst := (sys_inst s)\<lparr>jobs := q\<rparr>\<rparr>)"
    if "job_Enter (database (sys_inst s)) i (jobs (sys_inst s)) = Inr q"
  proof -
    from that obtain j where j: "find_job i (jobs (sys_inst s)) = Some j"
      "q = set_job (j\<lparr>job_handle := Some (db (database (sys_inst s)))\<rparr>) (jobs (sys_inst s))"
      by (auto simp: job_Enter_def split: option.splits)
    have "job_auth L G (sys_inst s) (j\<lparr>job_handle := Some (db (database (sys_inst s)))\<rparr>)"
      using found [OF j(1)] inv by (auto simp: job_auth_def db_inv_def)
    with put j(2) show ?thesis by blast
  qed
  show "auth_inv L G (s\<lparr>sys_inst := (sys_inst s)\<lparr>jobs := q\<rparr>\<rparr>)"
    if run: "job_Run L G (database (sys_inst s)) i (jobs (sys_inst s)) = Inr q"
  proof -
    from run obtain j where j: "find_job i (jobs (sys_inst s)) = Some j"
      by (cases "find_job i (jobs (sys_inst s))") (simp_all add: job_Run_def)
    from job_Run_result [OF inv j, of L G] run obtain b where
      "q = set_job (j\<lparr>job_result := b, job_stage := JobDone\<rparr>) (jobs (sys_inst s))"
      "CheckPassword L G (job_username j) (job_password j) (job_database j (database (sys_inst s))) = Inr b" by auto
    with put [OF job_auth_run [OF inv found [OF j]]] show ?thesis by blast
  qed
qed

lemma auth_sys_do:
  assumes "sys_do L G s e (Inr t)" and I: "sys_inv L s" and A: "auth_inv L G s" and ep: "after_epoch e"
  shows "auth_inv L G t"
  using assms(1)
proof cases
  case (do_accept ls1 l ls2 mem now fd address)
  show ?thesis by (rule auth_put_listener [OF A do_accept(3,4,2)]) (rule OnAccept_frame)
next
  case (do_conn ls1 l ls2 cs1 c cs2 ev)
  with ep show ?thesis by (intro auth_conn_event [OF I A do_conn(3-8)]) simp_all
next
  case (do_delayed_timer ls1 l ls2 ds1 d ds2 mem now)
  show ?thesis by (rule auth_put_listener [OF A do_delayed_timer(3,4,2)]) (rule Delayed_frames(1))
next
  case (do_delayed_hangup ls1 l ls2 ds1 d ds2 now)
  show ?thesis
    by (rule auth_put_listener [OF A do_delayed_hangup(3,4,2)]) (auto dest: Delayed_frames(2))
next
  case (do_cleanup now)
  then show ?thesis
    by (intro auth_keep [OF A _ do_cleanup(3)]) (auto simp: auth_frame_def all_conns_def intro: jobs_follow_subset)
next
  case (do_datagram st payload now reload env address)
  have "db_inv (database (sys_inst s))" using db_inv_reached [OF I] .
  then show ?thesis
    by (intro auth_put_inst [OF A do_datagram(3,2)]) (rule OnUdpDatagram_frame)
next
  case (do_take i q)
  with auth_worker(1) [OF A do_take(3) db_inv_reached [OF I]] show ?thesis by simp
next
  case (do_enter i j)
  with auth_worker(2) [OF A do_enter(3) db_inv_reached [OF I], of i] show ?thesis
    by (cases "job_Enter (database (sys_inst s)) i (jobs (sys_inst s))") simp_all
next
  case (do_run i j)
  with auth_worker(3) [OF A do_run(3) db_inv_reached [OF I], of i] show ?thesis
    by (cases "job_Run L G (database (sys_inst s)) i (jobs (sys_inst s))") simp_all
next
  case (do_done_canceled i j q io env)
  then have "q = delete_job i (jobs (sys_inst s))" by (simp add: job_Done_def split: if_splits)
  with do_done_canceled show ?thesis
    by (intro auth_keep [OF A _ do_done_canceled(3)]) (auto simp: all_conns_def delete_job_def auth_frame_def intro: jobs_follow_subset)
next
  case (do_done_conn i j k user b q ls1 l ls2 cs1 c cs2 io env)
  from do_done_conn(2) show ?thesis
    by (intro auth_checked [OF I A do_done_conn(3,4,6,7,8,9)]) simp
next
  case (do_done_knock i j this address st user b q io env)
  have "q = delete_job i (jobs (sys_inst s))" using do_done_knock by (simp add: job_Done_def split: if_splits)
  then show ?thesis
    by (intro auth_put_inst [OF A do_done_knock(3,2)])
      (auto simp: delete_job_def auth_frame_def dest!: Request_frame intro: jobs_follow_subset)
next
  case (do_shutdown now)
  from do_shutdown(2) [symmetric] have "sys_down t" "sys_listeners t = []" by (auto simp: OnShutdown_def Let_def res_simps)
  then show ?thesis by (simp add: auth_inv_def all_conns_def)
qed

lemma auth_machine:
  "invariant_of sys_init (auth_step L G) (\<lambda>s. sys_inv L s \<and> auth_inv L G s)"
proof
  fix s
  assume i: "sys_init s"
  then have "jobs (sys_inst s) = [] \<and> all_conns s = []"
    by (rule sys_init_cases) (simp add: all_conns_def new_Listener_def)
  with sys_init_inv [OF i] show "sys_inv L s \<and> auth_inv L G s" by (simp add: auth_inv_def)
next
  fix s e t
  assume "sys_inv L s \<and> auth_inv L G s" and "auth_step L G s e t"
  then show "sys_inv L t \<and> auth_inv L G t"
    using sys_do_good [of G s e "Inr t"] auth_sys_do [of G s e t]
    by (auto simp: auth_step_def sys_step_def good_def)
qed

end

lemmas reach_auth_inv = invariant_of.reach_inv [OF event_lib.auth_machine]

end
