(* ===== verification/Connection_Properties.thy ===== *)
theory Connection_Properties
  imports Connection_Safety
begin

text \<open>
  The functional behaviour of a connection: the packets it sends, the choice of a
  server, the rejection of a login, what it forwards, and where it stops forwarding.
\<close>

section \<open>Packets\<close>

lemma unat_u16: "n < 65536 \<Longrightarrow> unat (of_nat n :: u16) = n"
  by (simp add: unat_of_nat)

lemma server_list_elements:
  "length (game_servers (server_list_packet servers)) = length servers"
  "list_all wf_server_info (game_servers (server_list_packet servers))"
  by (simp_all add: server_list_packet_def server_list_element_def wf_server_info_def list_all_iff
      Let_def case_prod_beta)

text \<open>
  C23. The server list packet describes the configured servers.  For at least one and at most
  1638 servers, its length field is the number of bytes that are sent, its counter is the number of
  servers, and a client that decodes the bytes gets back, for each server in
  order, its index and the first 31 characters of its name.
\<close>

theorem server_list_round_trip:
  assumes "packed_be L" and "servers \<noteq> []" and "length servers \<le> 1638"
  shows "let bs = encode_server_list L (server_list_packet servers);
             p = decode_server_list L bs
         in unat (list_length p) = length bs \<and> unat (num_game_servers p) = length servers \<and>
            list_cmd p = Command_ServerList \<and> length (game_servers p) = length servers \<and>
            (\<forall>i < length servers. unat (info_index (game_servers p ! i)) = i \<and>
               ExtractString (info_name (game_servers p ! i)) =
                 take 31 (ExtractString (server_name (servers ! i))))"
proof -
  let ?p = "server_list_packet servers"
  have n: "unat (num_game_servers ?p) = length servers" "unat (list_length ?p) = 6 + 40 * length servers"
  proof -
    show "unat (num_game_servers ?p) = length servers"
      using assms(3) by (simp add: server_list_packet_def Let_def unat_u16)
    have "sizeof_server_list + (length servers - 1) * sizeof_server_info = 6 + 40 * length servers"
      using assms(2) by (cases servers) (simp_all add: sizeof_server_list_def sizeof_server_info_def)
    with assms(3) show "unat (list_length ?p) = 6 + 40 * length servers"
      by (simp add: server_list_packet_def Let_def unat_u16 del: of_nat_add of_nat_mult)
  qed
  have dec: "decode_server_list L (encode_server_list L ?p) = ?p"
    using packed_be.decode_encode_server_list [OF assms(1)] server_list_elements n(1) by simp
  have len: "length (encode_server_list L ?p) = 6 + 40 * length servers"
    using packed_be.server_list_length [OF assms(1), of ?p] server_list_elements
    by (simp add: sizeof_server_info_def)
  have el: "unat (info_index (game_servers ?p ! i)) = i"
    "ExtractString (info_name (game_servers ?p ! i)) = take 31 (ExtractString (server_name (servers ! i)))"
    if "i < length servers" for i
  proof -
    have e: "game_servers ?p ! i = server_list_element (i, servers ! i)"
      using that by (simp add: server_list_packet_def Let_def nth_enumerate_eq)
    show "unat (info_index (game_servers ?p ! i)) = i"
      using that assms(3) by (simp add: e server_list_element_def unat_u16)
    have "CHR 0x00 \<notin> set (take 31 (ExtractString (server_name (servers ! i))))"
      using ExtractString_no_null [of "server_name (servers ! i)"] in_set_takeD by fastforce
    then show "ExtractString (info_name (game_servers ?p ! i)) = take 31 (ExtractString (server_name (servers ! i)))"
      by (simp add: e server_list_element_def ExtractString_pad_to)
  qed
  show ?thesis
    using n len el server_list_elements(1) by (simp add: Let_def dec) (simp add: server_list_packet_def Let_def)
qed

definition sample_servers :: "GameServerConfig list" where
  "sample_servers =
    [\<lparr>server_name = ''Felucca'', server_address = AddrInet [10, 0, 0, 1] 2593\<rparr>,
     \<lparr>server_name = ''A shard whose name is longer than its field'', server_address = AddrInet [10, 0, 0, 2] 2593\<rparr>]"

theorem server_list_round_trip_witness:
  "unat (num_game_servers (decode_server_list ref_lib
      (encode_server_list ref_lib (server_list_packet sample_servers)))) = 2"
  using server_list_round_trip [OF ref_be.packed_be_axioms, of sample_servers]
  by (simp add: sample_servers_def Let_def)



definition sample_cfg :: Config where
  "sample_cfg =
    \<lparr>prometheus_exporter = default_SocketConfig, listener = default_SocketConfig,
     knock_listener = default_SocketConfig, knock_nft_set = [], user_database = ''users.db'',
     game_server = AddrInet [10, 0, 0, 1] 2593, server_list = [], auto_reload_user_database = False,
     send_remote_ip = True\<rparr>"

text \<open>A seed packet and the login of user \<open>alice\<close> with password \<open>secret\<close>.\<close>

definition sample_packets :: bytes where
  "sample_packets =
    0xef # replicate 20 0 @ 0x80 # as_bytes (pad_to 30 ''alice'') @ as_bytes (pad_to 30 ''secret'') @ [0]"

definition sample_conn :: Connection where
  "sample_conn =
    \<lparr>remote_address = AddrInet [192, 0, 2, 1] 4711, accounting = new_AccountedClientConnection 0,
     incoming = [EvSchedule 0x2001, EvCtor 5], outgoing = [], splice_in_out = new_Splice,
     splice_out_in = new_Splice, outgoing_address = AddrNull, connect = [],
     timeout = [TmSchedule (seconds 5)], cancel_ptr = None, initial_packets = sample_packets,
     initial_packets_fill = 83, state = CHECK_CREDENTIALS, send_play_server = False\<rparr>"

lemma sample_packets_length: "length sample_packets = 83"
  by (simp add: sample_packets_def)


text \<open>
  A part of the login is taken for the whole: if the socket takes some of the bytes only, the
  connection goes on as if it had sent them all.
\<close>

theorem short_login_accepted:
  assumes "state c = CONNECTING" and "unat (initial_packets_fill c) = 83" and "\<not> send_play_server c"
    and "0 < io_send io" and "nat (io_send io) < length (initial_vector L (config inst) c)"
  shows "\<exists>inst' c'. OnSocketConnectSuccess L io fd inst c = Inr (inst', Live c') \<and> state c' = READY \<and>
    outgoing c' = EvScheduleRead # EvOpen fd #
      SockSend (take (nat (io_send io)) (initial_vector L (config inst) c)) # outgoing c"
proof -
  have "initial_vector L (config inst) (c\<lparr>connect := x\<rparr>) = initial_vector L (config inst) c" for x
    by (simp add: initial_vector_def)
  with assms show ?thesis
    by (simp add: OnSocketConnectSuccess_def SendInitialPackets_def sock_send_def Let_def)
qed

section \<open>The choice of a server\<close>

lemma play_server_bytes:
  assumes "packed_be L" and "length (take 3 bs) = 3" and "play_cmd (decode_play_server L (take 3 bs)) = cmd"
  shows "bs = encode_play_server L \<lparr>play_cmd = cmd, play_index = play_index (decode_play_server L (take 3 bs))\<rparr> @ drop 3 bs"
proof -
  have "encode_play_server L (decode_play_server L (take 3 bs)) = take 3 bs"
    using fixed_codec.enc_dec [OF packed_be.play_server_codec [OF assms(1)] assms(2)] .
  moreover have "decode_play_server L (take 3 bs) =
      \<lparr>play_cmd = cmd, play_index = play_index (decode_play_server L (take 3 bs))\<rparr>"
    using assms(3) by (cases "decode_play_server L (take 3 bs)") simp
  ultimately show ?thesis by (metis append_take_drop_id)
qed

text \<open>The connection on its way to the server with the given address.\<close>

definition chosen :: "sock_address \<Rightarrow> Connection \<Rightarrow> Connection" where
  "chosen a c =
     c\<lparr>outgoing_address := a, incoming := EvCancelOnlyRead # incoming c, timeout := TmCancel # timeout c,
       state := CONNECTING, send_play_server := True, connect := CnConnect a (seconds 10) # connect c\<rparr>"

lemma Destroy_not_live: "Destroy L now inst c \<noteq> Inr (inst', Live c')"
  by (auto simp: Destroy_def res_simps)

lemma ReceivePlayServer_eq:
  assumes "state c = SERVER_LIST" and "unat (initial_packets_fill c) = 83" and "server_list (config inst) \<noteq> []"
  shows "ReceivePlayServer L io inst c =
    (case io_reads io 0 of
       ReadErr e \<Rightarrow> Destroy L (io_now io) inst c
     | ReadBytes bs \<Rightarrow>
         let p = decode_play_server L (take 3 bs) in
         if length (take 3 bs) = 3 \<and> play_cmd p = Command_PlayServer \<and>
            unat (play_index p) < length (server_list (config inst))
         then Inr (inst, Live (chosen (server_address (server_list (config inst) ! unat (play_index p))) c))
         else Destroy L (io_now io) inst c)"
  using assms
  by (cases "io_reads io 0") (auto simp: ReceivePlayServer_def Let_def chosen_def not_less)

text \<open>
  C25. The client's choice is followed exactly.  While the server list is shown, the connection
  goes on to connect if and only if the client sends a complete play-server packet
  with the index of a configured server, and then it connects to the address of
  that server.
\<close>

theorem play_server_choice:
  assumes "packed_be L" and "state c = SERVER_LIST" and "unat (initial_packets_fill c) = 83"
    and "servers = server_list (config inst)" and "servers \<noteq> []" and "length servers \<le> 65536"
  shows "ReceivePlayServer L io inst c = Inr (inst', Live c') \<longleftrightarrow>
    (\<exists>i bs. i < length servers \<and>
       io_reads io 0 = ReadBytes
         (encode_play_server L \<lparr>play_cmd = Command_PlayServer, play_index = of_nat i\<rparr> @ bs) \<and>
       inst' = inst \<and> c' = chosen (server_address (servers ! i)) c)"
    (is "?L \<longleftrightarrow> ?R")
proof -
  note codec = packed_be.play_server_codec [OF assms(1)]
  note eq = ReceivePlayServer_eq [OF assms(2,3), of inst L io]
  show ?thesis
  proof
    assume ?L
    with eq assms(4,5) obtain bs where bs: "io_reads io 0 = ReadBytes bs" "length (take 3 bs) = 3"
      "play_cmd (decode_play_server L (take 3 bs)) = Command_PlayServer"
      "unat (play_index (decode_play_server L (take 3 bs))) < length servers"
      "inst' = inst" "c' = chosen (server_address (servers ! unat (play_index (decode_play_server L (take 3 bs))))) c"
      by (cases "io_reads io 0") (auto simp: Let_def Destroy_not_live Destroy_not_live [symmetric] split: if_splits)
    let ?w = "play_index (decode_play_server L (take 3 bs))"
    have "(of_nat (unat ?w) :: u16) = ?w" by simp
    with play_server_bytes [OF assms(1) bs(2,3)] bs(1)
    have "io_reads io 0 = ReadBytes
        (encode_play_server L \<lparr>play_cmd = Command_PlayServer, play_index = of_nat (unat ?w)\<rparr> @ drop 3 bs)"
      by metis
    with bs(4-6) show ?R by blast
  next
    assume ?R
    then obtain i bs where i: "i < length servers"
      "io_reads io 0 = ReadBytes (encode_play_server L \<lparr>play_cmd = Command_PlayServer, play_index = of_nat i\<rparr> @ bs)"
      "inst' = inst" "c' = chosen (server_address (servers ! i)) c" by blast
    let ?p = "\<lparr>play_cmd = Command_PlayServer, play_index = of_nat i\<rparr>"
    have "length (encode_play_server L ?p) = 3" "decode_play_server L (encode_play_server L ?p) = ?p"
      using fixed_codec.enc_length [OF codec] fixed_codec.dec_enc [OF codec] by simp_all
    then show ?L using eq i assms(4-6) by (simp add: Let_def unat_u16)
  qed
qed

definition sample_io :: io where
  "sample_io =
    \<lparr>io_now = 0, io_reads = (\<lambda>i. ReadErr 11), io_send = 100, io_stock = StockCreate (Inr (8, 9)),
     io_receive = SpliceInErr 11, io_flush = SpliceOutErr 11, io_forward = SpliceOutErr 11,
     io_reload = \<lparr>re_stat = Inl 2, re_runtime_directory = None, re_open_src = (\<lambda>_. None), re_open_dst = (\<lambda>_. None),
                  re_copy = (\<lambda>_ _ _. None), re_create = (0, 7), re_open = (\<lambda>_. 0)\<rparr>\<rparr>"

definition sample_inst :: Instance where
  "sample_inst =
    \<lparr>config = sample_cfg, metrics = new_Metrics\<lparr>client_connections := 1\<rparr>,
     database = \<lparr>db = Some 7, db_path = Some ''users.db'', last_mtime = 0, last_reload_error = None,
                 auto_reload = False, open_handles = [7], opened = [(7, ''users.db'')]\<rparr>,
     jobs = [], next_id = 1, client_accounting = new_ClientAccountingMap 16 True,
     pipe_stock = \<lparr>stock_idle = []\<rparr>, knock_listeners = [], knock_requests = []\<rparr>"

theorem play_server_choice_witness:
  "\<exists>c'. ReceivePlayServer ref_lib (sample_io\<lparr>io_reads := (\<lambda>i. ReadBytes [0xa0, 0, 1])\<rparr>)
      (sample_inst\<lparr>config := sample_cfg\<lparr>server_list := sample_servers\<rparr>\<rparr>)
      (sample_conn\<lparr>state := SERVER_LIST\<rparr>) =
      Inr (sample_inst\<lparr>config := sample_cfg\<lparr>server_list := sample_servers\<rparr>\<rparr>, Live c') \<and>
    outgoing_address c' = AddrInet [10, 0, 0, 2] 2593"
proof -
  let ?c = "sample_conn\<lparr>state := SERVER_LIST\<rparr>"
  let ?i = "sample_inst\<lparr>config := sample_cfg\<lparr>server_list := sample_servers\<rparr>\<rparr>"
  let ?a = "AddrInet [10, 0, 0, 2] 2593"
  let ?c' = "chosen ?a ?c"
  have "ReceivePlayServer ref_lib (sample_io\<lparr>io_reads := (\<lambda>i. ReadBytes [0xa0, 0, 1])\<rparr>) ?i ?c = Inr (?i, Live ?c')"
    by (rule play_server_choice [OF ref_be.packed_be_axioms, where servers = sample_servers, THEN iffD2])
      (auto simp: sample_conn_def sample_servers_def encode_play_server_def ref_lib_def ref_be16_store_def
        Command_PlayServer_def intro!: exI [of _ 1])
  then show ?thesis by (auto simp: chosen_def)
qed

section \<open>Rejected logins\<close>



lemma sample_inst_ok: "inst_ok sample_inst sample_conn"
  by (simp add: inst_ok_def sample_inst_def wf_map_def new_ClientAccountingMap_def sample_conn_def
      new_AccountedClientConnection_def db_inv_def user_db_file_def stock_clean_def)

definition sample_checking :: Connection where
  "sample_checking = sample_conn\<lparr>incoming := [EvCancelOnlyRead, EvSchedule 0x2001, EvCtor 5],
     timeout := [TmCancel, TmSchedule (seconds 5)], cancel_ptr := Some 3\<rparr>"

lemma sample_checking_inv: "conn_inv ref_lib sample_cfg sample_checking"
  by (simp add: conn_inv_def state_inv_def no_server_def idle_splices_def sample_checking_def sample_conn_def
      sample_packets_length ref_lib_def has_event_def)


section \<open>The server's list\<close>

lemma ReadNoWait_length: "ReadNoWait r n = ReadBytes bs \<Longrightarrow> length bs \<le> n"
  by (cases r) auto

lemma Discard_length:
  "length (snd (Discard reads i n)) \<le> n \<and> (fst (Discard reads i n) \<longleftrightarrow> length (snd (Discard reads i n)) = n)"
proof (induction reads i n rule: Discard.induct)
  case (1 reads i n)
  show ?case
  proof (cases "n = 0 \<or> (\<exists>e. ReadNoWait (reads i) (min 1024 n) = ReadErr e) \<or>
      ReadNoWait (reads i) (min 1024 n) = ReadBytes []")
    case True
    then show ?thesis by (auto simp: Discard.simps [of reads i n])
  next
    case False
    then obtain bs where bs: "n \<noteq> 0" "ReadNoWait (reads i) (min 1024 n) = ReadBytes bs" "bs \<noteq> []"
      by (cases "ReadNoWait (reads i) (min 1024 n)") auto
    have "length bs \<le> n" using ReadNoWait_length [OF bs(2)] by simp
    with bs 1 [OF bs] show ?thesis by (auto simp: Discard.simps [of reads i n] case_prod_beta)
  qed
qed

lemma Discard_succeeds:
  "\<forall>k. \<exists>b bs. reads k = ReadBytes (b # bs) \<Longrightarrow> fst (Discard reads i n)"
proof (induction reads i n rule: Discard.induct)
  case (1 reads i n)
  from 1(2) obtain b bs where b: "reads i = ReadBytes (b # bs)" by blast
  then have r: "ReadNoWait (reads i) (min 1024 n) = ReadBytes (take (min 1024 n) (b # bs))" by simp
  show ?case
  proof (cases "n = 0")
    case False
    then have "take (min 1024 n) (b # bs) \<noteq> []" by simp
    with False r 1 show ?thesis by (simp add: Discard.simps [of reads i n] case_prod_beta)
  qed (simp add: Discard.simps)
qed

text \<open>
  C28. Discarding ends with success exactly if the wanted number of bytes was taken from the
  socket, never takes more, and succeeds if every read delivers something.
\<close>

theorem Discard_exact:
  "length (snd (Discard reads i n)) \<le> n \<and>
   (fst (Discard reads i n) \<longleftrightarrow> length (snd (Discard reads i n)) = n) \<and>
   ((\<forall>k. \<exists>b bs. reads k = ReadBytes (b # bs)) \<longrightarrow> fst (Discard reads i n))"
  using Discard_length [of reads i n] Discard_succeeds [of reads i n] by blast

theorem Discard_exact_witness:
  "fst (Discard (\<lambda>i. ReadBytes (replicate 700 0)) 2 2000)"
proof -
  have "\<forall>k. \<exists>b bs. (\<lambda>i. ReadBytes (replicate 700 (0 :: byte))) k = ReadBytes (b # bs)"
    by (auto simp: numeral_eq_Suc)
  then show ?thesis using Discard_exact [of "\<lambda>i. ReadBytes (replicate 700 0)" 2 2000] by blast
qed




section \<open>Data before the server answers\<close>

text \<open>
  C29. A client that sends data right after its login stops the process.  Without a server list, an
  accepted login leaves the connection waiting for the server while its client's
  socket is being read; every readable event in this state fails the assertion that no
  connect is pending.
\<close>

theorem early_data_assertion:
  assumes "event_lib L" and "inst_ok inst c" and "conn_inv L (config inst) c" and "state c = CHECK_CREDENTIALS"
    and "server_list (config inst) = []"
  shows "\<exists>inst' c'. OnCheckCredentials L io user True inst c = Inr (inst', Live c') \<and>
    ev_IsReadPending L (incoming c') \<and> connect_IsPending L (connect c') \<and>
    (\<forall>io' events inst''. has_event events (ev_READ L) \<and> \<not> has_event events (ev_DEAD_MASK L) \<longrightarrow>
       OnIncomingReady L io' events inst'' c' = Inl (AssertFailure ''Connection.cxx'' 281))"
proof -
  let ?c = "c\<lparr>cancel_ptr := None\<rparr>"
  have "inst_ok inst ?c" using assms(2) by (simp add: inst_ok_def)
  from charge_ok [OF this, of L "io_now io" 1] obtain i where
    i: "charge L (io_now io) 1 inst ?c = Inr i" "quiet inst i" by blast
  let ?a = "game_server (config inst)"
  let ?c' = "?c\<lparr>state := CONNECTING, incoming := EvScheduleRead # incoming c, outgoing_address := ?a,
      connect := CnConnect ?a (seconds 10) # connect c\<rparr>"
  have "config i = config inst" using i(2) by (simp add: quiet_def)
  then have "\<exists>inst'. OnCheckCredentials L io user True inst c = Inr (inst', Live ?c')"
    using i(1) assms(4,5) by (simp add: OnCheckCredentials_def Let_def)
  moreover have "ev_IsReadPending L (incoming ?c')" "connect_IsPending L (connect ?c')"
    using event_lib.axioms [OF assms(1)] socket_events.ev_read(7) connecting.connect_pending(2) by simp_all
  ultimately show ?thesis by (auto simp: OnIncomingReady_def noexcept_def)
qed

theorem early_data_assertion_witness:
  "\<exists>inst' c'. OnCheckCredentials ref_lib sample_io ''alice'' True sample_inst sample_checking = Inr (inst', Live c') \<and>
    OnIncomingReady ref_lib sample_io 1 inst' c' = Inl (AssertFailure ''Connection.cxx'' 281)"
proof -
  have "inst_ok sample_inst sample_checking"
    using sample_inst_ok by (simp add: inst_ok_def sample_checking_def)
  moreover have "conn_inv ref_lib (config sample_inst) sample_checking"
    using sample_checking_inv by (simp add: sample_inst_def)
  moreover have "state sample_checking = CHECK_CREDENTIALS" "server_list (config sample_inst) = []"
    by (simp_all add: sample_checking_def sample_conn_def sample_inst_def sample_cfg_def)
  moreover have "has_event 1 (ev_READ ref_lib)" "\<not> has_event 1 (ev_DEAD_MASK ref_lib)"
    by (simp_all add: has_event_def ref_lib_def)
  ultimately show ?thesis
    using early_data_assertion [OF ref_events.event_lib_axioms, of sample_inst sample_checking sample_io "''alice''"]
    by blast
qed

end
