(* ===== verification/Sample_Run.thy ===== *)
theory Sample_Run
  imports System_Invariant Connection_Properties
begin

text \<open>
  A concrete run of the daemon, on which the properties of the root theory are evaluated: a client connects, logs in as
  \<open>alice\<close> with the right password, a worker thread checks the password, and the daemon starts
  to connect to the game server.
\<close>

definition sample_G :: "nat \<Rightarrow> string \<Rightarrow> nat \<Rightarrow> get_answer" where
  "sample_G h key n = (if h = 7 \<and> key = ''ALICE'' then DbFound ''$secret'' else DbNotFound)"

definition sample_sockets :: sockets where
  "sample_sockets = \<lparr>so_exporter = None, so_listener = None, so_knock = None\<rparr>"

definition sample_start :: "Config \<Rightarrow> System" where
  "sample_start cfg = projr (Run cfg (0, 7) (\<lambda>_. 0) sample_sockets)"

definition sample_state :: "u64 \<Rightarrow> callback CheckCredentialsJob list \<Rightarrow> nat \<Rightarrow> nat \<Rightarrow> Connection \<Rightarrow> System" where
  "sample_state logins js i updates c =
    \<lparr>sys_inst = sample_inst
       \<lparr>metrics := new_Metrics\<lparr>client_connections := 1, client_connections_accepted := 1,
                               accepted_logins := logins\<rparr>,
        jobs := js, next_id := i,
        client_accounting := (new_ClientAccountingMap 16 True)\<lparr>entries :=
          [\<lparr>pc_address = 0xc0000201, pc_connections = [0], pc_expires = 0, pc_tarpit_until = 0, pc_delay = 0,
            pc_token_bucket = replicate updates \<lparr>tb_rate = 1, tb_burst = 10, tb_now = 0, tb_size = 1\<rparr>,
            pc_knocked = False\<rparr>]\<rparr>\<rparr>,
     sys_listeners = [\<lparr>connections = [c], delayed = []\<rparr>], sys_exporter = False, sys_down = False\<rparr>"

definition sample_check_job :: "job_stage \<Rightarrow> bool \<Rightarrow> callback CheckCredentialsJob" where
  "sample_check_job st r = (new_CheckCredentialsJob 1 ''alice'' ''secret'' (CbConnection 0))
     \<lparr>job_stage := st, job_result := r\<rparr>"

definition sample_new :: Connection where
  "sample_new = sample_conn\<lparr>accounting := \<lparr>acc_id = 0, acc_per_client = Some 0xc0000201\<rparr>,
     initial_packets := replicate 83 0, initial_packets_fill := 0, state := INITIAL\<rparr>"

definition sample_waiting :: Connection where
  "sample_waiting = sample_new\<lparr>incoming := [EvCancelOnlyRead, EvSchedule 0x2001, EvCtor 5],
     timeout := [TmCancel, TmSchedule (seconds 5)], initial_packets := sample_packets, initial_packets_fill := 83,
     state := CHECK_CREDENTIALS, cancel_ptr := Some 1\<rparr>"

definition sample_connecting :: Connection where
  "sample_connecting = sample_waiting\<lparr>incoming := EvScheduleRead # incoming sample_waiting, state := CONNECTING,
     cancel_ptr := None, outgoing_address := game_server sample_cfg,
     connect := [CnConnect (game_server sample_cfg) (seconds 10)]\<rparr>"

definition sample_login :: conn_event where
  "sample_login = IncomingReady (sample_io\<lparr>io_reads := (\<lambda>i. ReadBytes sample_packets)\<rparr>) 1"

lemma sample_start_init:
  assumes "\<not> isl (Run cfg (0, 7) (\<lambda>_. 0) sample_sockets)"
  shows "sys_init (sample_start cfg)"
proof -
  have "Run cfg (0, 7) (\<lambda>_. 0) sample_sockets = Inr (sample_start cfg)"
    using assms by (simp add: sample_start_def)
  then show ?thesis unfolding sys_init_def by blast
qed

lemma sample_accept:
  "put_listener (sample_start sample_cfg) [] [] (OnAccept ref_lib 0 (replicate 83 0) 5 (AddrInet [192, 0, 2, 1] 4711)
      (sys_inst (sample_start sample_cfg)) new_Listener) = Inr (sample_state 0 [] 1 1 sample_new)"
  by code_simp

lemma sample_receive:
  "conn_handle ref_lib sample_login (sys_inst (sample_state 0 [] 1 1 sample_new)) sample_new =
     Inr (sys_inst (sample_state 0 [sample_check_job JobWaiting False] 2 1 sample_waiting), Live sample_waiting)"
  by code_simp

lemma sample_checked:
  "conn_handle ref_lib (Checked sample_io ''alice'' True) (sys_inst (sample_state 0 [] 2 1 sample_waiting)) sample_waiting =
     Inr (sys_inst (sample_state 1 [] 2 2 sample_connecting), Live sample_connecting)"
  by code_simp

lemma sample_job_run:
  "job_Run ref_lib sample_G (database sample_inst) 1 [sample_check_job JobBusy False] = Inr [sample_check_job JobDone True]"
  by code_simp

lemma sample_credentials:
  "conn_user ref_lib sample_connecting = ''alice'' \<and> conn_pass ref_lib sample_connecting = ''secret''"
  by code_simp

lemma sample_job_moves:
  "job_Take 1 [sample_check_job JobWaiting r] = Some [sample_check_job JobBusy r]"
  "job_Done 1 [sample_check_job JobDone True] = Inr (Some (CbConnection 0, ''alice'', True), [])"
  "find_job 1 [sample_check_job st r] = Some (sample_check_job st r)" "job_stage (sample_check_job st r) = st"
  by (simp_all add: job_Take_def job_Done_def find_job_def set_job_def delete_job_def sample_check_job_def
      new_CheckCredentialsJob_def)

lemma sample_state_sel:
  "jobs (sys_inst (sample_state n js i u c)) = js" "sys_down (sample_state n js i u c) = False"
  "database (sys_inst (sample_state n js i u c)) = database sample_inst"
  "sys_listeners (sample_state n js i u c) = [] @ \<lparr>connections = [] @ c # [], delayed = []\<rparr> # []"
  "(sample_state n js i u c)\<lparr>sys_inst := sys_inst (sample_state n' js' i' u' c)\<rparr> = sample_state n' js' i' u' c"
  "(sys_inst (sample_state n js i u c))\<lparr>jobs := q\<rparr> = sys_inst (sample_state n q i u c)"
  "all_conns (sample_state n js i u c) = [c]" "all_delayed (sample_state n js i u c) = []"
  by (simp_all add: sample_state_def all_conns_def all_delayed_def)

lemma sample_state_config [simp]: "config (sys_inst (sample_state n js i u c)) = sample_cfg"
  by (simp add: sample_state_def sample_inst_def)

lemma sample_put:
  "put_listener (sample_state n js i u c) [] [] (put_conn \<lparr>connections = [] @ c # [], delayed = []\<rparr> [] []
      (Inr (sys_inst (sample_state n' js' i' u' c'), Live c'))) = Inr (sample_state n' js' i' u' c')"
  by (simp add: put_listener_def put_conn_def survivors_def sample_state_def)

lemma sample_waiting_id: "acc_id (accounting sample_waiting) = 0"
  by (simp add: sample_waiting_def sample_new_def)

lemma sample_init: "sys_init (sample_start sample_cfg)"
  by (rule sample_start_init) code_simp+

lemma sample_reach_new: "reach sys_init (auth_step ref_lib sample_G) (sample_state 0 [] 1 1 sample_new)"
proof (rule reach_step)
  show "reach sys_init (auth_step ref_lib sample_G) (sample_start sample_cfg)"
    by (rule reach_init) (rule sample_init)
  have s: "sys_listeners (sample_start sample_cfg) = [] @ new_Listener # []" "\<not> sys_down (sample_start sample_cfg)"
    by code_simp+
  show "auth_step ref_lib sample_G (sample_start sample_cfg)
      (SysAccept 0 (replicate 83 0) 5 (AddrInet [192, 0, 2, 1] 4711)) (sample_state 0 [] 1 1 sample_new)"
    using sys_do.do_accept [OF s(2,1), of "replicate 83 0" ref_lib sample_G 0 5 "AddrInet [192, 0, 2, 1] 4711"]
    by (simp del: One_nat_def add: auth_step_def sys_step_def sample_accept)
qed

lemma sample_reach_waiting:
  "reach sys_init (auth_step ref_lib sample_G) (sample_state 0 [sample_check_job JobWaiting False] 2 1 sample_waiting)"
proof (rule reach_step [OF sample_reach_new])
  let ?s = "sample_state 0 [] 1 1 sample_new" and ?l = "\<lparr>connections = [] @ sample_new # [], delayed = []\<rparr>"
  have d: "deliverable ref_lib sample_login sample_new" by code_simp
  have p: "io_ok ref_lib sample_login (sys_inst ?s) sample_new"
    by (simp add: sample_login_def sample_io_def pool_ok_def stock_answer_ok_def)
  have "sys_do ref_lib sample_G ?s (SysConn sample_login)
      (put_listener ?s [] [] (put_conn ?l [] [] (conn_handle ref_lib sample_login (sys_inst ?s) sample_new)))"
    by (rule sys_do.do_conn) (use d p in \<open>simp_all add: sample_state_sel sample_login_def\<close>)
  then show "auth_step ref_lib sample_G ?s (SysConn sample_login)
      (sample_state 0 [sample_check_job JobWaiting False] 2 1 sample_waiting)"
    unfolding sample_receive sample_put
    by (simp del: One_nat_def add: auth_step_def sys_step_def stat_after_epoch_def sample_login_def sample_io_def)
qed

lemma sample_reach_connecting:
  "reach sys_init (auth_step ref_lib sample_G) (sample_state 1 [] 2 2 sample_connecting)"
proof -
  let ?s = "\<lambda>st r. sample_state 0 [sample_check_job st r] 2 1 sample_waiting"
    and ?l = "\<lparr>connections = [] @ sample_waiting # [], delayed = []\<rparr>"
  have "auth_step ref_lib sample_G (?s JobWaiting False) (SysJobTake 1) (?s JobBusy False)"
    using sys_do.do_take [of "?s JobWaiting False" 1 "[sample_check_job JobBusy False]" ref_lib sample_G]
    by (simp del: One_nat_def add: auth_step_def sys_step_def sample_state_sel sample_job_moves)
  from reach_step [OF sample_reach_waiting this]
  have busy: "reach sys_init (auth_step ref_lib sample_G) (?s JobBusy False)" .
  have "auth_step ref_lib sample_G (?s JobBusy False) (SysJobRun 1) (?s JobDone True)"
    using sys_do.do_run [of "?s JobBusy False" 1 "sample_check_job JobBusy False" ref_lib sample_G]
    by (simp del: One_nat_def add: auth_step_def sys_step_def sample_state_sel sample_job_moves sample_job_run)
  from reach_step [OF busy this]
  have checked: "reach sys_init (auth_step ref_lib sample_G) (?s JobDone True)" .
  have "sys_do ref_lib sample_G (?s JobDone True) (SysJobDone 1 sample_io \<lparr>nft_spawn = 0, nft_errno = 0, nft_waits = []\<rparr>)
      (put_listener (?s JobDone True) [] [] (put_conn ?l [] []
        (conn_handle ref_lib (Checked sample_io ''alice'' True)
           ((sys_inst (?s JobDone True))\<lparr>jobs := []\<rparr>) sample_waiting)))"
    by (rule sys_do.do_done_conn [where k = 0 and j = "sample_check_job JobDone True"])
      (simp_all del: One_nat_def add: sample_state_sel sample_job_moves sample_waiting_id)
  then have "auth_step ref_lib sample_G (?s JobDone True)
      (SysJobDone 1 sample_io \<lparr>nft_spawn = 0, nft_errno = 0, nft_waits = []\<rparr>) (sample_state 1 [] 2 2 sample_connecting)"
    unfolding sample_state_sel(6) sample_checked sample_put
    by (simp del: One_nat_def add: auth_step_def sys_step_def)
  from reach_step [OF checked this] show ?thesis .
qed

lemma auth_reach:
  assumes "reach sys_init (auth_step L G) s"
  shows "reach sys_init (sys_step L G) s"
  using assms by induction (auto simp: auth_step_def intro: reach.intros)

lemmas sample_reach_states =
  sample_reach_new [THEN auth_reach] sample_reach_waiting [THEN auth_reach] sample_reach_connecting [THEN auth_reach]

text \<open>A knock while the user database cannot be found.\<close>

definition sample_knock_cfg :: Config where
  "sample_knock_cfg = sample_cfg\<lparr>auto_reload_user_database := True,
     knock_listener := default_SocketConfig\<lparr>bind_address := AddrInet [0, 0, 0, 0] 2593\<rparr>\<rparr>"

definition sample_knock :: sys_event where
  "sample_knock = SysDatagram 0 (io_reload sample_io) \<lparr>nft_spawn = 0, nft_errno = 0, nft_waits = []\<rparr> (new_KnockListener None)
     (drop 21 sample_packets) (AddrInet [192, 0, 2, 1] 4711)"

lemma sample_knock_fails:
  "put_inst (sample_start sample_knock_cfg) (OnUdpDatagram ref_lib 0 (io_reload sample_io)
     \<lparr>nft_spawn = 0, nft_errno = 0, nft_waits = []\<rparr> (new_KnockListener None) (drop 21 sample_packets) (AddrInet [192, 0, 2, 1] 4711)
     (sys_inst (sample_start sample_knock_cfg))) = Inl (StdTerminate ''KnockListener.cxx'' 43)"
  by code_simp

lemma sample_knock_start:
  "reach sys_init (sys_step ref_lib sample_G) (sample_start sample_knock_cfg)"
  "sys_do ref_lib sample_G (sample_start sample_knock_cfg) sample_knock (Inl (StdTerminate ''KnockListener.cxx'' 43))"
proof -
  show "reach sys_init (sys_step ref_lib sample_G) (sample_start sample_knock_cfg)"
    by (rule reach_init, rule sample_start_init) code_simp+
  have "knock_listeners (sys_inst (sample_start sample_knock_cfg)) = [new_KnockListener None] \<and>
      \<not> sys_down (sample_start sample_knock_cfg) \<and>
      length (drop 21 sample_packets) \<le> kl_max_payload (new_KnockListener None)"
    by code_simp
  then show "sys_do ref_lib sample_G (sample_start sample_knock_cfg) sample_knock (Inl (StdTerminate ''KnockListener.cxx'' 43))"
    unfolding sample_knock_def sample_knock_fails [symmetric] by (intro sys_do.do_datagram) simp_all
qed

end
