(* ===== verification/Admission.thy ===== *)
theory Admission
  imports Sample_Run
begin

text \<open>
  Who is let in: \<open>OnAccept\<close> of src/Listener.cxx against a reference definition of its policy, and
  what makes a client count as one that has knocked (src/KnockListener.cxx).
\<close>

section \<open>The policy of the listener\<close>

text \<open>The object of a client, or the one that would be created for it; none without a key.\<close>

definition client_entry :: "lib \<Rightarrow> sock_address \<Rightarrow> Instance \<Rightarrow> PerClientAccounting option" where
  "client_entry L address inst =
    (let k = ToInteger L address in
     if k = 0 then None
     else Some (case find_entry k (client_accounting inst) of
                  None \<Rightarrow> new_PerClientAccounting k | Some pc \<Rightarrow> pc))"

datatype verdict = NotKnocked | TooMany | Tarpit duration | Admitted

text \<open>
  The policy, without any change of state: a client that exceeds its rate loses its knock and gets a
  longer delay; then the knock, the number of its connections and the delay are looked at, in this order.
\<close>

definition next_delay :: "lib \<Rightarrow> timepoint \<Rightarrow> PerClientAccounting \<Rightarrow> duration" where
  "next_delay L now pc =
    (if over_limit L now 1 pc then (if pc_delay pc < MAX_DELAY then pc_delay pc + DELAY_STEP else pc_delay pc)
     else if now < pc_tarpit_until pc then (if pc_delay pc > DELAY_STEP then pc_delay pc - DELAY_STEP else pc_delay pc)
     else 0)"

definition verdict_for :: "lib \<Rightarrow> timepoint \<Rightarrow> Instance \<Rightarrow> PerClientAccounting \<Rightarrow> verdict" where
  "verdict_for L now inst pc =
    (if RequireKnock inst \<and> (\<not> pc_knocked pc \<or> over_limit L now 1 pc) then NotKnocked
     else if length (pc_connections pc) \<ge> 16 then TooMany
     else if next_delay L now pc > 0 then Tarpit (next_delay L now pc)
     else Admitted)"

definition verdict :: "lib \<Rightarrow> timepoint \<Rightarrow> sock_address \<Rightarrow> Instance \<Rightarrow> verdict" where
  "verdict L now address inst =
    (case client_entry L address inst of None \<Rightarrow> Admitted | Some pc \<Rightarrow> verdict_for L now inst pc)"

text \<open>What \<open>OnAccept\<close> does for each verdict.\<close>

definition carried_out ::
    "lib \<Rightarrow> sock_address \<Rightarrow> verdict \<Rightarrow> Instance \<Rightarrow> Listener \<Rightarrow> Instance \<Rightarrow> Listener \<Rightarrow> bool" where
  "carried_out L address v inst l inst' l' =
    (case v of
       NotKnocked \<Rightarrow> l' = l \<and>
         metrics inst' = (metrics inst)\<lparr>missing_knocks := missing_knocks (metrics inst) + 1\<rparr>
     | TooMany \<Rightarrow> l' = l \<and> metrics inst' = metrics inst
     | Tarpit d \<Rightarrow> connections l' = connections l \<and>
         metrics inst' = (metrics inst)\<lparr>delayed_connections := delayed_connections (metrics inst) + 1\<rparr> \<and>
         (\<exists>c. delayed l' = delayed l @ [c] \<and> dc_timer c = [TmSchedule d] \<and> dc_peer_address c = address \<and>
            acc_per_client (dc_accounting c) = Some (ToInteger L address))
     | Admitted \<Rightarrow> delayed l' = delayed l \<and>
         metrics inst' = (metrics inst)
           \<lparr>client_connections := client_connections (metrics inst) + 1,
            client_connections_accepted := client_connections_accepted (metrics inst) + 1\<rparr> \<and>
         (\<exists>c. connections l' = c # connections l \<and> state c = INITIAL \<and> remote_address c = address \<and>
            acc_per_client (accounting c) =
              (if ToInteger L address = 0 then None else Some (ToInteger L address))))"

lemma GetClientAccounting_entry:
  "(client_entry L address inst = None \<and> GetClientAccounting L address inst = (None, inst) \<and> ToInteger L address = 0) \<or>
   (\<exists>pc m. client_entry L address inst = Some pc \<and> ToInteger L address \<noteq> 0 \<and>
      GetClientAccounting L address inst = (Some (ToInteger L address), inst\<lparr>client_accounting := m\<rparr>) \<and>
      find_entry (ToInteger L address) m = Some pc \<and> tarpit m = tarpit (client_accounting inst) \<and>
      max_connections m = max_connections (client_accounting inst))"
proof (cases rule: Get_cases [of L address "client_accounting inst"])
  case (2 pc)
  moreover have "inst\<lparr>client_accounting := client_accounting inst\<rparr> = inst" by simp
  ultimately show ?thesis
    unfolding client_entry_def GetClientAccounting_def Let_def
    by (intro disjI2 exI [of _ pc] exI [of _ "client_accounting inst"]) simp
qed (auto simp: client_entry_def GetClientAccounting_def Let_def find_entry_insert new_PerClientAccounting_def)

lemma AddConnection_result:
  assumes "find_entry k m = Some pc"
  shows "\<exists>m'. PerClient_AddConnection k (new_AccountedClientConnection i) m =
    Inr (m', \<lparr>acc_id = i, acc_per_client = Some k\<rparr>)"
  using assms by (simp add: PerClient_AddConnection_def new_AccountedClientConnection_def)

lemma UpdateTokenBucket_delay:
  "pc_delay (PerClient_UpdateTokenBucket L True now 1 pc) = next_delay L now pc"
  "pc_knocked (PerClient_UpdateTokenBucket L True now 1 pc) \<longleftrightarrow> pc_knocked pc \<and> \<not> over_limit L now 1 pc"
  using UpdateTokenBucket_over [of L now 1 pc] UpdateTokenBucket_within [of L now 1 pc]
  by (auto simp: next_delay_def)

lemma OnAccept_known:
  assumes known: "client_entry L address inst = Some pc" "ToInteger L address \<noteq> 0"
    "GetClientAccounting L address inst = (Some (ToInteger L address), inst\<lparr>client_accounting := m\<rparr>)"
    "find_entry (ToInteger L address) m = Some pc" "tarpit m" "max_connections m = 16"
  shows "\<exists>inst' l'. OnAccept L now mem fd address inst l = Inr (inst', l') \<and>
    carried_out L address (verdict L now address inst) inst l inst' l'"
proof -
  let ?k = "ToInteger L address"
  let ?pc = "PerClient_UpdateTokenBucket L True now 1 pc"
  let ?m = "set_entry ?pc m"
  have k: "pc_address pc = ?k" using known(4) by (rule find_entry_address)
  have m: "Map_UpdateTokenBucket L now 1 ?k m = Inr ?m" "find_entry ?k ?m = Some ?pc"
    using known(4,5) k by (simp_all add: Map_UpdateTokenBucket_def find_entry_set_entry)
  obtain m' where a: "PerClient_AddConnection ?k (new_AccountedClientConnection (next_id inst)) ?m =
      Inr (m', \<lparr>acc_id = next_id inst, acc_per_client = Some ?k\<rparr>)"
    using AddConnection_result [OF m(2)] by blast
  have check: "PerClient_Check ?pc ?m \<longleftrightarrow> length (pc_connections pc) < 16"
    using known(6) by (simp add: PerClient_Check_def set_entry_def)
  have v: "verdict L now address inst = (if RequireKnock inst \<and> \<not> pc_knocked ?pc then NotKnocked
      else if \<not> PerClient_Check ?pc ?m then TooMany
      else if pc_delay ?pc > 0 then Tarpit (pc_delay ?pc) else Admitted)"
    using known(1) check by (auto simp: verdict_def verdict_for_def UpdateTokenBucket_delay)
  have u: "Map_UpdateTokenBucket L now 1 ?k (client_accounting (inst\<lparr>client_accounting := m\<rparr>)) = Inr ?m"
    using m(1) by simp
  have r: "RequireKnock (inst\<lparr>client_accounting := m\<rparr>) = RequireKnock inst" by (simp add: RequireKnock_def)
  from known(3) u m(2) show ?thesis
    by (cases rule: OnAccept_cases [where mem = mem and fd = fd and l = l])
      (use a known(2) r v in \<open>auto simp: carried_out_def new_DelayedConnection_def Listener_AddConnection_def new_Connection_def Let_def\<close>)
qed

lemma over_limit_not_admitted:
  assumes "wf_map (client_accounting inst)" and "client_entry L address inst = Some pc" and "over_limit L now 1 pc"
  shows "verdict L now address inst \<noteq> Admitted"
proof -
  have "0 \<le> pc_delay pc"
    using assms(1,2) wf_map_entry [of "client_accounting inst" "ToInteger L address" pc]
    by (auto simp: client_entry_def Let_def new_PerClientAccounting_def wf_entry_def wf_delay_def
        split: if_splits option.splits)
  with assms(2,3) show ?thesis
    by (auto simp: verdict_def verdict_for_def next_delay_def DELAY_STEP_def MAX_DELAY_def)
qed

text \<open>
  C13. Accepting a connection follows the policy: in every case \<open>OnAccept\<close> returns and does exactly
  what the reference definition says.  In particular a client that exceeds its rate is never served at
  once: it is turned away or delayed.
\<close>

theorem OnAccept_policy:
  assumes "wf_map (client_accounting inst)" and "tarpit (client_accounting inst)"
    and "max_connections (client_accounting inst) = 16"
  shows "(\<exists>inst' l'. OnAccept L now mem fd address inst l = Inr (inst', l') \<and>
      carried_out L address (verdict L now address inst) inst l inst' l') \<and>
    (\<forall>pc. client_entry L address inst = Some pc \<and> over_limit L now 1 pc \<longrightarrow> verdict L now address inst \<noteq> Admitted)"
proof -
  consider (unknown) "client_entry L address inst = None" "GetClientAccounting L address inst = (None, inst)"
      "ToInteger L address = 0"
    | (known) pc m where "client_entry L address inst = Some pc" "ToInteger L address \<noteq> 0"
      "GetClientAccounting L address inst = (Some (ToInteger L address), inst\<lparr>client_accounting := m\<rparr>)"
      "find_entry (ToInteger L address) m = Some pc" "tarpit m" "max_connections m = 16"
    using GetClientAccounting_entry [of L address inst] assms(2,3) by auto
  then have "\<exists>inst' l'. OnAccept L now mem fd address inst l = Inr (inst', l') \<and>
      carried_out L address (verdict L now address inst) inst l inst' l'"
  proof cases
    case unknown
    then show ?thesis
      by (auto simp: OnAccept_def Listener_AddConnection_def new_Connection_def Let_def verdict_def carried_out_def
          new_AccountedClientConnection_def)
  next
    case (known pc m)
    with OnAccept_known show ?thesis by blast
  qed
  with over_limit_not_admitted [OF assms(1)] show ?thesis by blast
qed

theorem OnAccept_policy_witness:
  "\<exists>inst' l' c. OnAccept ref_lib 0 (replicate 83 0) 5 (AddrInet [192, 0, 2, 1] 4711) sample_inst new_Listener =
     Inr (inst', l') \<and> connections l' = [c] \<and> acc_per_client (accounting c) = Some 0xc0000201"
proof -
  let ?a = "AddrInet [192, 0, 2, 1] 4711"
  have "verdict ref_lib 0 ?a sample_inst = Admitted \<and> ToInteger ref_lib ?a = 0xc0000201" by code_simp
  moreover have "wf_map (client_accounting sample_inst)" "tarpit (client_accounting sample_inst)"
    "max_connections (client_accounting sample_inst) = 16"
    by (simp_all add: sample_inst_def new_ClientAccountingMap_def wf_map_def)
  ultimately show ?thesis
    using OnAccept_policy [of sample_inst ref_lib 0 "replicate 83 0" 5 ?a new_Listener]
    by (auto simp: carried_out_def new_Listener_def)
qed

section \<open>Who has knocked\<close>

definition knocked_map :: "ClientAccountingMap \<Rightarrow> u64 set" where
  "knocked_map m = {k. \<exists>pc. find_entry k m = Some pc \<and> pc_knocked pc}"

definition knocked :: "Instance \<Rightarrow> u64 set" where
  "knocked inst = knocked_map (client_accounting inst)"

lemma knocked_frame [simp]:
  "knocked (inst\<lparr>metrics := ms\<rparr>) = knocked inst"
  "knocked (inst\<lparr>jobs := js\<rparr>) = knocked inst"
  "knocked (inst\<lparr>database := d\<rparr>) = knocked inst"
  "knocked (inst\<lparr>next_id := i\<rparr>) = knocked inst"
  "knocked (inst\<lparr>pipe_stock := p\<rparr>) = knocked inst"
  "knocked (inst\<lparr>knock_requests := r\<rparr>) = knocked inst"
  "knocked (inst\<lparr>knock_listeners := ls\<rparr>) = knocked inst"
  "knocked (inst\<lparr>client_accounting := m\<rparr>) = knocked_map m"
  by (simp_all add: knocked_def)









section \<open>Handlers that make nobody knocked\<close>

text \<open>Nobody but the clients of a set has knocked.\<close>

definition no_new :: "u64 set \<Rightarrow> Instance \<Rightarrow> bool" where
  "no_new K inst \<longleftrightarrow> knocked inst \<subseteq> K"

lemma no_new_frame [simp]:
  "no_new K (inst\<lparr>metrics := ms\<rparr>) = no_new K inst"
  "no_new K (inst\<lparr>jobs := js\<rparr>) = no_new K inst"
  "no_new K (inst\<lparr>database := d\<rparr>) = no_new K inst"
  "no_new K (inst\<lparr>next_id := i\<rparr>) = no_new K inst"
  "no_new K (inst\<lparr>pipe_stock := p\<rparr>) = no_new K inst"
  "no_new K (inst\<lparr>knock_requests := r\<rparr>) = no_new K inst"
  "no_new K (inst\<lparr>knock_listeners := ls\<rparr>) = no_new K inst"
  by (simp_all add: no_new_def)


definition calm :: "u64 set \<Rightarrow> fault + (Instance \<times> 'a) \<Rightarrow> bool" where
  "calm K m \<longleftrightarrow> (\<forall>inst x. m = Inr (inst, x) \<longrightarrow> no_new K inst)"

lemma calm_Inr [simp]: "calm K (Inr (inst, x)) \<longleftrightarrow> no_new K inst"
  and calm_Inl [simp]: "calm K (Inl f)"
  by (simp_all add: calm_def)




















section \<open>Listeners and knocks\<close>














section \<open>The whole daemon\<close>






















end
