(* ===== verification/Forwarding.thy ===== *)
theory Forwarding
  imports Connection_Properties
begin

text \<open>
  The two byte streams of a ready connection: what \<open>OnIncomingReady\<close> and \<open>OnOutgoingReady\<close> of
  src/Connection.cxx do, over any number of events, with the bytes they splice from one
  socket to the other.
\<close>

section \<open>Streams\<close>

text \<open>The bytes that a socket was sent, by writing or by splicing, in their order.\<close>

fun sent :: "socket_event \<Rightarrow> bytes" where
  "sent [] = []"
| "sent (SockSend bs # h) = sent h @ bs"
| "sent (SockSplice bs # h) = sent h @ bs"
| "sent (_ # h) = sent h"

text \<open>What the server was sent and what is on its way there; and the other direction.\<close>

definition stream_up :: "Connection \<Rightarrow> bytes" where
  "stream_up c = sent (outgoing c) @ splice_content (splice_in_out c)"

definition stream_down :: "Connection \<Rightarrow> bytes" where
  "stream_down c = sent (incoming c) @ splice_content (splice_out_in c)"

definition received :: "io \<Rightarrow> bytes" where
  "received io = (case io_receive io of SpliceIn bs \<Rightarrow> bs | SpliceInErr e \<Rightarrow> [])"

fun read_bytes :: "read_result \<Rightarrow> bytes" where
  "read_bytes (ReadBytes bs) = bs"
| "read_bytes (ReadErr e) = []"

text \<open>What \<open>ReceiveServerList\<close> reads: the command, the length and as many bytes as it says.\<close>

definition list_bytes :: "lib \<Rightarrow> io \<Rightarrow> bytes" where
  "list_bytes L io =
    (let len = read_bytes (ReadNoWait (io_reads io 1) 2)
     in read_bytes (ReadNoWait (io_reads io 0) 1) @ len @
        snd (Discard (io_reads io) 2 (unat (be16_load L len) - 3)))"

text \<open>
  The bytes an event takes from the client's and from the server's socket, in each state of a
  connection that survives the event.
\<close>

fun from_client :: "lib \<Rightarrow> Connection \<Rightarrow> conn_event \<Rightarrow> bytes" where
  "from_client L c (IncomingReady io events) =
    (case state c of
       INITIAL \<Rightarrow> read_bytes (ReadNoWait (io_reads io 0) (83 - unat (initial_packets_fill c)))
     | SERVER_LIST \<Rightarrow> read_bytes (ReadNoWait (io_reads io 0) 3)
     | READY \<Rightarrow> if has_event events (ev_READ L) then received io else []
     | _ \<Rightarrow> [])"
| "from_client L c _ = []"

fun from_server :: "lib \<Rightarrow> Connection \<Rightarrow> conn_event \<Rightarrow> bytes" where
  "from_server L c (OutgoingReady io events) =
    (case state c of
       SEND_PLAY_SERVER \<Rightarrow> list_bytes L io
     | READY \<Rightarrow> if has_event events (ev_READ L) then received io else []
     | _ \<Rightarrow> [])"
| "from_server L c _ = []"

text \<open>
  Any number of events that a connection survives, with all bytes taken from the client and
  from the server.  Between two events other objects may change the instance.
\<close>

inductive conn_run :: "lib \<Rightarrow> Config \<Rightarrow> Connection \<Rightarrow> bytes \<Rightarrow> bytes \<Rightarrow> Connection \<Rightarrow> bool"
  for L :: lib and cfg :: Config where
  run_none: "conn_run L cfg c [] [] c"
| run_event: "conn_run L cfg c up down c' \<Longrightarrow> config inst = cfg \<Longrightarrow> inst_ok inst c' \<Longrightarrow>
    is_Checked e \<or> job_ok inst c' \<Longrightarrow>
    deliverable L e c' \<Longrightarrow> io_ok L e inst c' \<Longrightarrow> conn_handle L e inst c' = Inr (inst', Live c'') \<Longrightarrow>
    conn_run L cfg c (up @ from_client L c' e) (down @ from_server L c' e) c''"

lemmas run_plain = run_event [OF _ _ _ disjI2]

section \<open>One event\<close>

text \<open>
  A step of a ready connection: it stays ready, reading is not scheduled anew, and the
  streams grow by the bytes that were received.
\<close>

definition carries :: "lib \<Rightarrow> bytes \<Rightarrow> bytes \<Rightarrow> Connection \<Rightarrow> Connection \<Rightarrow> bool" where
  "carries L up down c c' \<longleftrightarrow>
     state c' = state c \<and> connect c' = connect c \<and> outgoing_address c' = outgoing_address c \<and>
     send_play_server c' = send_play_server c \<and> initial_packets c' = initial_packets c \<and>
     remote_address c' = remote_address c \<and>
     (ev_IsReadPending L (incoming c') \<longrightarrow> ev_IsReadPending L (incoming c)) \<and>
     (ev_IsReadPending L (outgoing c') \<longrightarrow> ev_IsReadPending L (outgoing c)) \<and>
     stream_up c' = stream_up c @ up \<and> stream_down c' = stream_down c @ down"

lemma carries_refl: "carries L [] [] c c"
  by (simp add: carries_def)

lemma carries_trans:
  "carries L up down c c' \<Longrightarrow> carries L up' down' c' c'' \<Longrightarrow> carries L (up @ up') (down @ down') c c''"
  by (simp add: carries_def)

lemma splice_upto_ok: "splice_out_ok (splice_upto r (splice_size s)) s"
  by (cases r) (simp_all add: splice_out_ok_def)

text \<open>Both pipes hold as many bytes as their objects say.\<close>

definition both_inv :: "Instance \<Rightarrow> Connection \<Rightarrow> bool" where
  "both_inv inst c \<longleftrightarrow> splice_inv (splice_in_out c) \<and> splice_inv (splice_out_in c) \<and> stock_clean (pipe_stock inst)"

lemma bind_live_Live:
  "bind_live m f = Inr (inst', Live c') \<longleftrightarrow> (\<exists>i d. m = Inr (i, Live d) \<and> f i d = Inr (inst', Live c'))"
proof (cases m)
  case (Inr r)
  then show ?thesis by (cases r; cases "snd r") (auto simp: bind_live_def)
qed (simp add: bind_live_def)

context event_lib
begin

lemma DoSpliceSend_stream:
  assumes "splice_inv s" and "stock_clean stock"
    and "DoSpliceSend r from to s stock = Inr (ok, from', to', s', stock')"
  shows "splice_inv s' \<and> stock_clean stock' \<and>
    sent to' @ splice_content s' = sent to @ splice_content s \<and> sent from' = sent from \<and>
    (ev_IsReadPending L from' \<longrightarrow> ev_IsReadPending L from) \<and> ev_IsReadPending L to' = ev_IsReadPending L to"
proof -
  from assms(3) obtain res moved where
    S: "SendTo (splice_upto r (splice_size s)) s stock = Inr (res, moved, s', stock')"
    by (auto simp: DoSpliceSend_def Let_def res_simps split: SendResult.splits) (metis SendResult.exhaust)
  from SendTo_ok [OF assms(1,2) splice_upto_ok S] assms(3) S show ?thesis
    by (auto simp: DoSpliceSend_def Let_def split: SendResult.splits)
qed

lemma forward_in_out_carries:
  assumes "both_inv inst c" and "forward_in_out L io r inst c = Inr (inst', Live c')"
  shows "both_inv inst' c' \<and> carries L [] [] c c'"
proof -
  from assms(2) obtain i out s stock where
    D: "DoSpliceSend r (incoming c) (outgoing c) (splice_in_out c) (pipe_stock inst) = Inr (True, i, out, s, stock)"
    and r: "c' = c\<lparr>incoming := i, outgoing := out, splice_in_out := s\<rparr>" "inst' = inst\<lparr>pipe_stock := stock\<rparr>"
    by (auto simp: forward_in_out_def Let_def res_simps Destroy_not_live split: if_splits)
  from DoSpliceSend_stream [OF _ _ D] assms(1) r show ?thesis
    by (simp add: both_inv_def carries_def stream_up_def stream_down_def)
qed

lemma forward_out_in_carries:
  assumes "both_inv inst c" and "forward_out_in L io r inst c = Inr (inst', Live c')"
  shows "both_inv inst' c' \<and> carries L [] [] c c'"
proof -
  from assms(2) obtain i out s stock where
    D: "DoSpliceSend r (outgoing c) (incoming c) (splice_out_in c) (pipe_stock inst) = Inr (True, out, i, s, stock)"
    and r: "c' = c\<lparr>incoming := i, outgoing := out, splice_out_in := s\<rparr>" "inst' = inst\<lparr>pipe_stock := stock\<rparr>"
    by (auto simp: forward_out_in_def Let_def res_simps Destroy_not_live split: if_splits)
  from DoSpliceSend_stream [OF _ _ D] assms(1) r show ?thesis
    by (simp add: both_inv_def carries_def stream_up_def stream_down_def)
qed

lemma ReceiveFrom_stream:
  assumes "splice_inv s" and "stock_clean stock" and "stock_answer_ok (io_stock io) stock"
    and "ReceiveFrom (io_stock io) (io_receive io) (s\<lparr>received_bytes := 0\<rparr>) stock = Inr (res, s', stock')"
  shows "splice_inv s' \<and> stock_clean stock' \<and> splice_content s' = splice_content s @ received io"
  using ReceiveFrom_ok [OF _ assms(2-4)] assms(1) by (simp add: received_def splice_content_def)

lemma receive_incoming_carries:
  assumes B: "both_inv inst c" and "stock_answer_ok (io_stock io) (pipe_stock inst)"
    and R: "receive_incoming L io inst c = Inr (inst', Live c')"
  shows "carries L (received io) [] c c'"
proof -
  from R obtain res s stock where
    F: "ReceiveFrom (io_stock io) (io_receive io) ((splice_in_out c)\<lparr>received_bytes := 0\<rparr>) (pipe_stock inst) =
      Inr (res, s, stock)"
    by (auto simp: receive_incoming_def res_simps)
  let ?c = "c\<lparr>splice_in_out := s\<rparr>"
  from ReceiveFrom_stream [OF _ _ assms(2) F] B
  have s: "splice_inv s" "stock_clean stock" "splice_content s = splice_content (splice_in_out c) @ received io"
    by (simp_all add: both_inv_def)
  then have C: "carries L (received io) [] c ?c"
    by (simp add: carries_def stream_up_def stream_down_def)
  show ?thesis
  proof (cases res)
    case RECEIVE_OK
    from R F have "forward_in_out L io (io_forward io)
        (inst\<lparr>pipe_stock := stock, metrics := (metrics inst)
          \<lparr>client_bytes := client_bytes (metrics inst) + received_bytes s\<rparr>\<rparr>) ?c = Inr (inst', Live c')"
      by (simp add: receive_incoming_def RECEIVE_OK)
    from forward_in_out_carries [OF _ this] s B carries_trans [OF C, of "[]" "[]" c'] show ?thesis
      by (simp add: both_inv_def)
  next
    case RECEIVE_PIPE_FULL
    with R F have "c' = ?c\<lparr>incoming := EvCancelOnlyRead # incoming c\<rparr>"
      by (auto simp: receive_incoming_def res_simps)
    with C show ?thesis by (simp add: carries_def stream_up_def stream_down_def)
  qed (use R F C in \<open>auto simp: receive_incoming_def Destroy_not_live\<close>)
qed

lemma receive_outgoing_carries:
  assumes B: "both_inv inst c" and "stock_answer_ok (io_stock io) (pipe_stock inst)"
    and R: "receive_outgoing L io inst c = Inr (inst', Live c')"
  shows "carries L [] (received io) c c'"
proof -
  from R obtain res s stock where
    F: "ReceiveFrom (io_stock io) (io_receive io) ((splice_out_in c)\<lparr>received_bytes := 0\<rparr>) (pipe_stock inst) =
      Inr (res, s, stock)"
    by (auto simp: receive_outgoing_def res_simps)
  let ?c = "c\<lparr>splice_out_in := s\<rparr>"
  from ReceiveFrom_stream [OF _ _ assms(2) F] B
  have s: "splice_inv s" "stock_clean stock" "splice_content s = splice_content (splice_out_in c) @ received io"
    by (simp_all add: both_inv_def)
  then have C: "carries L [] (received io) c ?c"
    by (simp add: carries_def stream_up_def stream_down_def)
  show ?thesis
  proof (cases res)
    case RECEIVE_OK
    from R F have "forward_out_in L io (io_forward io)
        (inst\<lparr>pipe_stock := stock, metrics := (metrics inst)
          \<lparr>server_bytes := server_bytes (metrics inst) + received_bytes s\<rparr>\<rparr>) ?c = Inr (inst', Live c')"
      by (simp add: receive_outgoing_def RECEIVE_OK)
    from forward_out_in_carries [OF _ this] s B carries_trans [OF C, of "[]" "[]" c'] show ?thesis
      by (simp add: both_inv_def)
  next
    case RECEIVE_PIPE_FULL
    with R F have "c' = ?c\<lparr>outgoing := EvCancelOnlyRead # outgoing c\<rparr>"
      by (auto simp: receive_outgoing_def res_simps)
    with C show ?thesis by (simp add: carries_def stream_up_def stream_down_def)
  qed (use R F C in \<open>auto simp: receive_outgoing_def Destroy_not_live\<close>)
qed

lemma IncomingReady_carries:
  assumes B: "both_inv inst c" and "state c = READY"
    and io: "io_ok L (IncomingReady io events) inst c"
    and R: "OnIncomingReady L io events inst c = Inr (inst', Live c')"
  shows "carries L (from_client L c (IncomingReady io events)) [] c c'"
proof -
  from R assms(2) obtain i d where
    F: "flush_incoming L io events inst c = Inr (i, Live d)"
    and G: "(if has_event events (ev_READ L) then receive_incoming L io i d else Inr (i, Live d)) = Inr (inst', Live c')"
    by (auto simp: OnIncomingReady_def noexcept_Inr_iff bind_live_Live res_simps Destroy_not_live
        split: if_splits)
  have f: "both_inv i d \<and> carries L [] [] c d"
    using F B forward_out_in_carries [of inst c io "io_flush io" i d]
    by (auto simp: flush_incoming_def carries_refl split: if_splits)
  have "stock_answer_ok (io_stock io) (pipe_stock i)" using io F by (simp add: pool_ok_def)
  with f G assms(2) receive_incoming_carries [of i d io inst' c'] carries_trans [of L "[]" "[]" c d "received io" "[]" c']
  show ?thesis by (auto split: if_splits)
qed

lemma OutgoingReady_carries:
  assumes B: "both_inv inst c" and "state c = READY"
    and io: "io_ok L (OutgoingReady io events) inst c"
    and R: "OnOutgoingReady L io events inst c = Inr (inst', Live c')"
  shows "carries L [] (from_server L c (OutgoingReady io events)) c c'"
proof -
  from R assms(2) obtain i d where
    F: "flush_outgoing L io events inst c = Inr (i, Live d)"
    and G: "(if has_event events (ev_READ L) then receive_outgoing L io i d else Inr (i, Live d)) = Inr (inst', Live c')"
    by (auto simp: OnOutgoingReady_def noexcept_Inr_iff bind_live_Live res_simps Destroy_not_live
        split: if_splits)
  have f: "both_inv i d \<and> carries L [] [] c d"
    using F B forward_in_out_carries [of inst c io "io_flush io" i d]
    by (auto simp: flush_outgoing_def carries_refl split: if_splits)
  have "stock_answer_ok (io_stock io) (pipe_stock i)" using io F by (simp add: pool_ok_def)
  with f G assms(2) receive_outgoing_carries [of i d io inst' c'] carries_trans [of L "[]" "[]" c d "[]" "received io" c']
  show ?thesis by (auto split: if_splits)
qed

text \<open>The only events a ready connection survives are those of its two sockets.\<close>

lemma READY_carries:
  assumes "inst_ok inst c" and "conn_inv L cfg c" and "state c = READY" and "io_ok L e inst c"
    and "conn_handle L e inst c = Inr (inst', Live c')"
  shows "carries L (from_client L c e) (from_server L c e) c c'"
proof -
  have B: "both_inv inst c"
    using assms(1-3) by (simp add: both_inv_def inst_ok_def conn_inv_def state_inv_def dir_inv_def)
  show ?thesis
    using assms(3-5) IncomingReady_carries [OF B assms(3)] OutgoingReady_carries [OF B assms(3)]
    by (cases e) (auto simp: OnTimeout_def OnCheckCredentials_def OnSocketConnectSuccess_def
        OnSocketConnectError_def Let_def res_simps Destroy_not_live)
qed

lemma conn_run_carries:
  assumes "conn_run L cfg c up down c'" and "conn_inv L cfg c" and "state c = READY"
  shows "conn_inv L cfg c' \<and> carries L up down c c'"
  using assms
proof (induction rule: conn_run.induct)
  case (run_none c)
  then show ?case by (simp add: carries_refl)
next
  case (run_event c up down c' inst e inst' c'')
  then have c': "conn_inv L cfg c'" "carries L up down c c'" "state c' = READY"
    by (simp_all add: carries_def)
  have nc: "\<not> is_Checked e"
    using run_event.hyps(7) c'(3) by (cases e) (auto simp: OnCheckCredentials_def)
  have "conn_inv L cfg c''"
    using conn_handle_effect [OF run_event.hyps(3) _ run_event.hyps(4) run_event.hyps(5,6)]
      c'(1) run_event.hyps(2,7) nc
    by (auto simp: effect_def live_effect_def)
  with carries_trans [OF c'(2) READY_carries [OF run_event.hyps(3) c'(1,3) run_event.hyps(6,7)]]
  show ?case by simp
qed

text \<open>A socket that is not read from is never read from again.\<close>

lemma conn_run_stalled:
  assumes "conn_run L cfg c up down c'" and "conn_inv L cfg c" and "state c = READY"
  shows "(\<not> ev_IsReadPending L (incoming c) \<longrightarrow> up = [] \<and> \<not> ev_IsReadPending L (incoming c')) \<and>
    (\<not> ev_IsReadPending L (outgoing c) \<longrightarrow> down = [] \<and> \<not> ev_IsReadPending L (outgoing c'))"
  using assms
proof (induction rule: conn_run.induct)
  case (run_event c up down c' inst e inst' c'')
  from conn_run_carries [OF run_event.hyps(1) run_event.prems]
  have c': "conn_inv L cfg c'" "state c' = READY"
    using run_event.prems(2) by (simp_all add: carries_def)
  have "\<not> ev_IsReadPending L (incoming c') \<Longrightarrow> from_client L c' e = []"
    and "\<not> ev_IsReadPending L (outgoing c') \<Longrightarrow> from_server L c' e = []"
    using run_event.hyps(5) c'(2) by (cases e; auto simp: flags_ok_def)+
  with run_event.IH [OF run_event.prems]
    READY_carries [OF run_event.hyps(3) c' run_event.hyps(6,7)]
  show ?case by (auto simp: carries_def)
qed simp

end

section \<open>Properties\<close>

text \<open>A ready connection; three bytes arrive, two of them can be forwarded; then the last one.\<close>

definition sample_ready :: Connection where
  "sample_ready = sample_conn\<lparr>state := READY, incoming := [EvScheduleRead, EvSchedule 0x2001, EvCtor 5],
     outgoing := [EvScheduleRead, EvOpen 6], timeout := [TmCancel, TmSchedule (seconds 5)]\<rparr>"

definition sample_stuck :: Connection where
  "sample_stuck = sample_ready\<lparr>incoming := EvCancelOnlyRead # incoming sample_ready,
     outgoing := EvScheduleWrite # SockSplice [1, 2] # outgoing sample_ready,
     splice_in_out := \<lparr>splice_pipe = Some \<lparr>item_fds = (8, 9), item_content = [3]\<rparr>, splice_size = 1,
                       received_bytes = 3, sent_bytes = 2\<rparr>\<rparr>"

definition sample_flushed :: Connection where
  "sample_flushed = sample_stuck\<lparr>outgoing := EvCancelOnlyWrite # SockSplice [3] # outgoing sample_stuck,
     splice_in_out := \<lparr>splice_pipe = None, splice_size = 0, received_bytes = 3, sent_bytes = 3\<rparr>\<rparr>"

definition sample_arrival :: conn_event where
  "sample_arrival = IncomingReady (sample_io\<lparr>io_receive := SpliceIn [1, 2, 3], io_forward := SpliceOut 2\<rparr>) 1"

definition sample_flush :: conn_event where
  "sample_flush = OutgoingReady (sample_io\<lparr>io_flush := SpliceOut 1\<rparr>) 4"

lemma sample_forward_steps:
  "conn_handle ref_lib sample_arrival sample_inst sample_ready =
     Inr (sample_inst\<lparr>metrics := (metrics sample_inst)\<lparr>client_bytes := 3\<rparr>\<rparr>, Live sample_stuck)"
  "conn_handle ref_lib sample_flush sample_inst sample_stuck =
     Inr (sample_inst\<lparr>pipe_stock := \<lparr>stock_idle = [\<lparr>item_fds = (8, 9), item_content = []\<rparr>]\<rparr>\<rparr>, Live sample_flushed)"
  by code_simp+

lemma sample_ready_inv: "conn_inv ref_lib sample_cfg sample_ready"
  and sample_stuck_inv: "conn_inv ref_lib sample_cfg sample_stuck"
  by (simp_all add: conn_inv_def state_inv_def dir_inv_def splice_inv_def splice_content_def new_Splice_def
      sample_stuck_def sample_ready_def sample_conn_def sample_packets_length ref_lib_def has_event_def)

lemma sample_forward_ok:
  "config sample_inst = sample_cfg"
  "inst_ok sample_inst sample_ready" "job_ok sample_inst sample_ready"
  "inst_ok sample_inst sample_stuck" "job_ok sample_inst sample_stuck"
  using sample_inst_ok
  by (simp_all add: inst_ok_def job_ok_def sample_stuck_def sample_ready_def sample_inst_def sample_conn_def)

lemma sample_conn_run:
  "conn_run ref_lib sample_cfg sample_ready [1, 2, 3] [] sample_stuck"
  "conn_run ref_lib sample_cfg sample_stuck [] [] sample_flushed"
proof -
  have "deliverable ref_lib sample_arrival sample_ready" "deliverable ref_lib sample_flush sample_stuck"
    by code_simp+
  moreover have "io_ok ref_lib sample_arrival sample_inst sample_ready"
    "io_ok ref_lib sample_flush sample_inst sample_stuck"
    by (simp_all add: sample_arrival_def sample_flush_def sample_io_def pool_ok_def stock_answer_ok_def)
  ultimately have
    "conn_run ref_lib sample_cfg sample_ready ([] @ from_client ref_lib sample_ready sample_arrival)
       ([] @ from_server ref_lib sample_ready sample_arrival) sample_stuck"
    "conn_run ref_lib sample_cfg sample_stuck ([] @ from_client ref_lib sample_stuck sample_flush)
       ([] @ from_server ref_lib sample_stuck sample_flush) sample_flushed"
    using run_plain [OF run_none sample_forward_ok(1-3) _ _ sample_forward_steps(1)]
      run_plain [OF run_none sample_forward_ok(1,4,5) _ _ sample_forward_steps(2)] by blast+
  then show "conn_run ref_lib sample_cfg sample_ready [1, 2, 3] [] sample_stuck"
    "conn_run ref_lib sample_cfg sample_stuck [] [] sample_flushed"
    by (simp_all add: sample_arrival_def sample_flush_def received_def ref_lib_def has_event_def
        sample_ready_def sample_stuck_def)
qed

text \<open>
  C16. Once the bytes of a client could not be sent to the server at once, the connection never takes
  another byte from this client, even after the pipe was emptied: reading was cancelled, and
  no handler of a ready connection schedules it again.  The same holds for the other direction.
\<close>

theorem forwarding_stalls:
  assumes "event_lib L" and "conn_inv L cfg c" and "state c = READY" and "conn_run L cfg c up down c'"
  shows "(splice_size (splice_in_out c) > 0 \<longrightarrow> up = [] \<and> \<not> ev_IsReadPending L (incoming c')) \<and>
    (splice_size (splice_out_in c) > 0 \<longrightarrow> down = [] \<and> \<not> ev_IsReadPending L (outgoing c'))"
proof -
  have "(splice_size (splice_in_out c) > 0 \<longrightarrow> \<not> ev_IsReadPending L (incoming c)) \<and>
      (splice_size (splice_out_in c) > 0 \<longrightarrow> \<not> ev_IsReadPending L (outgoing c))"
    using assms(2,3) by (auto simp: conn_inv_def state_inv_def dir_inv_def)
  with event_lib.conn_run_stalled [OF assms(1,4,2,3)] show ?thesis by blast
qed

theorem forwarding_stalls_witness:
  "splice_content (splice_in_out sample_flushed) = [] \<and> \<not> ev_IsReadPending ref_lib (incoming sample_flushed)"
  using forwarding_stalls [OF ref_events.event_lib_axioms sample_stuck_inv _ sample_conn_run(2)]
  by (simp add: sample_stuck_def sample_ready_def sample_flushed_def splice_content_def)

end
