(* ===== verification/Login_Session.thy ===== *)
theory Login_Session
  imports Forwarding
begin

text \<open>
  The login as a whole: the packets may arrive in any pieces, and the states of a connection
  (src/Connection.hxx) implement a simple protocol that leads to one of the configured servers.
\<close>

section \<open>Login packets in pieces\<close>

text \<open>Readable events, each of which delivers one piece of the login packets.\<close>

fun receive_pieces :: "lib \<Rightarrow> io \<Rightarrow> bytes list \<Rightarrow> Instance \<Rightarrow> Connection \<Rightarrow> fault + (Instance \<times> fate)" where
  "receive_pieces L io [] inst c = Inr (inst, Live c)"
| "receive_pieces L io (p # ps) inst c =
     bind_live (OnIncomingReady L (io\<lparr>io_reads := (\<lambda>i. ReadBytes p)\<rparr>) (ev_READ L) inst c)
       (receive_pieces L io ps)"

lemma bind_live_return: "bind_live m (\<lambda>inst c. Inr (inst, Live c)) = m"
proof (cases m)
  case (Inr r)
  then show ?thesis by (cases r; cases "snd r") (auto simp: bind_live_def)
qed (simp add: bind_live_def)

text \<open>Once the packets are complete, a handler reads no more.\<close>

lemma no_more_reads:
  "reject_login L (io\<lparr>io_reads := r\<rparr>) = reject_login L io"
  "SendServerList L (io\<lparr>io_reads := r\<rparr>) = SendServerList L io"
  "OnCheckCredentials L (io\<lparr>io_reads := r\<rparr>) = OnCheckCredentials L io"
  "HandleLoginPackets L (io\<lparr>io_reads := r\<rparr>) = HandleLoginPackets L io"
proof -
  show 1: "reject_login L (io\<lparr>io_reads := r\<rparr>) = reject_login L io"
    by (intro ext) (simp add: reject_login_def Let_def cong: if_cong)
  show 2: "SendServerList L (io\<lparr>io_reads := r\<rparr>) = SendServerList L io"
    by (intro ext) (simp add: SendServerList_def Let_def cong: if_cong)
  show 3: "OnCheckCredentials L (io\<lparr>io_reads := r\<rparr>) = OnCheckCredentials L io"
    by (intro ext) (simp add: OnCheckCredentials_def 1 2 Let_def cong: if_cong)
  show "HandleLoginPackets L (io\<lparr>io_reads := r\<rparr>) = HandleLoginPackets L io"
    by (intro ext) (simp add: HandleLoginPackets_def 1 3 Let_def cong: if_cong)
qed

text \<open>The connection with its buffer filled up.\<close>

definition filled :: "bytes \<Rightarrow> Connection \<Rightarrow> Connection" where
  "filled bs c = c\<lparr>initial_packets := take (unat (initial_packets_fill c)) (initial_packets c) @ bs,
     initial_packets_fill := 83\<rparr>"

lemma fill_83: "unat w = 83 \<Longrightarrow> w = (83 :: byte)"
  by (simp add: word_unat_eq_iff)

context event_lib
begin

lemma OnIncomingReady_piece:
  assumes "state c = INITIAL" and "connect c = []" and "length (initial_packets c) = 83"
    and "unat (initial_packets_fill c) + length p \<le> 83" and "p \<noteq> []"
  shows "OnIncomingReady L (io\<lparr>io_reads := (\<lambda>i. ReadBytes p)\<rparr>) (ev_READ L) inst c =
    (if unat (initial_packets_fill c) + length p < 83
     then Inr (inst, Live (c\<lparr>initial_packets := write_at (unat (initial_packets_fill c)) p (initial_packets c),
                             initial_packets_fill := initial_packets_fill c + of_nat (length p)\<rparr>))
     else noexcept ''Connection.cxx'' 271 (HandleLoginPackets L io inst (filled p c)))"
proof -
  let ?n = "unat (initial_packets_fill c)"
  have n: "?n < 83" using assms(4,5) by (cases p) auto
  have fill: "unat (initial_packets_fill c + of_nat (length p)) = ?n + length p"
    using INITIAL_fill [OF n, of p] assms(4) by simp
  have full: "initial_packets_fill c + of_nat (length p) = 83" if "?n + length p = 83"
    using fill that fill_83 by simp
  have "\<not> has_event (ev_READ L) (ev_DEAD_MASK L)" "has_event (ev_READ L) (ev_READ L)"
    using DEAD_READ_disjoint READ_nonzero unfolding has_event_def by blast+
  then show ?thesis
    using assms n fill full
    by (auto simp: OnIncomingReady_def ReceiveLoginPackets_def Let_def no_more_reads(4) filled_def write_at_def)
qed

lemma receive_pieces_filled:
  assumes "state c = INITIAL" and "connect c = []" and "length (initial_packets c) = 83"
    and "unat (initial_packets_fill c) + length (concat ps) = 83" and "[] \<notin> set ps" and "ps \<noteq> []"
  shows "receive_pieces L io ps inst c =
    noexcept ''Connection.cxx'' 271 (HandleLoginPackets L io inst (filled (concat ps) c))"
  using assms
proof (induction ps arbitrary: c)
  case (Cons p ps)
  let ?n = "unat (initial_packets_fill c)"
  have p: "p \<noteq> []" "?n + length p \<le> 83" using Cons.prems(4,5) by auto
  note step = OnIncomingReady_piece [OF Cons.prems(1-3) p(2,1), of io inst]
  show ?case
  proof (cases "ps = []")
    case True
    moreover have "receive_pieces L io [] = (\<lambda>inst c. Inr (inst, Live c))" by (intro ext) simp
    ultimately show ?thesis using step Cons.prems(4) by (simp add: bind_live_return)
  next
    case False
    let ?c = "c\<lparr>initial_packets := write_at ?n p (initial_packets c),
                initial_packets_fill := initial_packets_fill c + of_nat (length p)\<rparr>"
    from False Cons.prems(5) have "0 < length (concat ps)" by (cases ps) auto
    with Cons.prems(4) have less: "?n + length p < 83" by (simp del: length_greater_0_conv length_concat)
    have fill: "unat (initial_packets_fill ?c) = ?n + length p"
      using INITIAL_fill [of "initial_packets_fill c" p] less by simp
    have "receive_pieces L io ps inst ?c =
        noexcept ''Connection.cxx'' 271 (HandleLoginPackets L io inst (filled (concat ps) ?c))"
      by (rule Cons.IH) (use Cons.prems False fill less in simp_all)
    moreover have "filled (concat ps) ?c = filled (concat (p # ps)) c"
      using fill take_write_at [of ?n p "initial_packets c"] less Cons.prems(3) by (simp add: filled_def)
    ultimately show ?thesis using step less by (simp add: bind_live_def)
  qed
qed simp

end

text \<open>
  C15. How the network cuts the login packets into pieces makes no difference: any sequence of
  readable events that delivers the 83 bytes, in pieces of any positive size, has the
  same outcome as one event that delivers all of them.
\<close>

theorem login_in_pieces:
  assumes "event_lib L" and "conn_inv L cfg c" and "state c = INITIAL"
    and "length (concat pieces) = 83 - unat (initial_packets_fill c)" and "[] \<notin> set pieces"
  shows "receive_pieces L io pieces inst c =
    OnIncomingReady L (io\<lparr>io_reads := (\<lambda>i. ReadBytes (concat pieces))\<rparr>) (ev_READ L) inst c"
proof -
  have c: "connect c = []" "length (initial_packets c) = 83" "unat (initial_packets_fill c) < 83"
    using assms(2,3) by (simp_all add: conn_inv_def state_inv_def)
  then have l: "unat (initial_packets_fill c) + length (concat pieces) = 83" "length (concat pieces) > 0"
    using assms(4) by simp_all
  then have p: "pieces \<noteq> []" "concat pieces \<noteq> []" "unat (initial_packets_fill c) + length (concat pieces) = 83"
    by (cases pieces; simp)+
  show ?thesis
    using event_lib.receive_pieces_filled [OF assms(1,3) c(1,2) p(3) assms(5) p(1), of io inst]
      event_lib.OnIncomingReady_piece [OF assms(1,3) c(1,2) _ p(2), of io inst] p(3) by simp
qed

definition sample_fresh :: Connection where
  "sample_fresh = sample_conn\<lparr>state := INITIAL, initial_packets := replicate 83 0, initial_packets_fill := 0\<rparr>"

lemma sample_fresh_inv: "conn_inv ref_lib sample_cfg sample_fresh"
  by (simp add: conn_inv_def state_inv_def no_server_def idle_splices_def sample_fresh_def sample_conn_def
      ref_lib_def has_event_def)

theorem login_in_pieces_witness:
  "receive_pieces ref_lib sample_io [take 1 sample_packets, take 30 (drop 1 sample_packets), drop 31 sample_packets]
     sample_inst sample_fresh =
   OnIncomingReady ref_lib (sample_io\<lparr>io_reads := (\<lambda>i. ReadBytes sample_packets)\<rparr>) (ev_READ ref_lib)
     sample_inst sample_fresh"
proof -
  let ?ps = "[take 1 sample_packets, take 30 (drop 1 sample_packets), drop 31 sample_packets]"
  have "concat ?ps = sample_packets"
    using append_take_drop_id [of 1 sample_packets] append_take_drop_id [of 30 "drop 1 sample_packets"] by simp
  moreover have "[] \<notin> set ?ps" using sample_packets_length by auto
  ultimately show ?thesis
    using login_in_pieces [OF ref_events.event_lib_axioms sample_fresh_inv, of ?ps sample_io sample_inst]
      sample_packets_length
    by (simp add: sample_fresh_def)
qed

section \<open>The session protocol\<close>

text \<open>
  The abstract specification: a session has a phase and, once one was chosen, the address of a
  server.  \<open>cfg\<close> tells which servers there are.
\<close>

type_synonym session = "State \<times> sock_address option"

inductive session_step :: "Config \<Rightarrow> session \<Rightarrow> session \<Rightarrow> bool" for cfg :: Config where
  submit: "session_step cfg (INITIAL, None) (CHECK_CREDENTIALS, None)"
| offer: "server_list cfg \<noteq> [] \<Longrightarrow> session_step cfg (CHECK_CREDENTIALS, None) (SERVER_LIST, None)"
| proceed: "server_list cfg = [] \<Longrightarrow>
    session_step cfg (CHECK_CREDENTIALS, None) (CONNECTING, Some (game_server cfg))"
| choose: "srv \<in> set (server_list cfg) \<Longrightarrow>
    session_step cfg (SERVER_LIST, None) (CONNECTING, Some (server_address srv))"
| play: "server_list cfg \<noteq> [] \<Longrightarrow> session_step cfg (CONNECTING, Some a) (SEND_PLAY_SERVER, Some a)"
| direct: "server_list cfg = [] \<Longrightarrow> session_step cfg (CONNECTING, Some a) (READY, Some a)"
| skip_list: "session_step cfg (SEND_PLAY_SERVER, Some a) (READY, Some a)"

inductive_cases session_stepE: "session_step cfg s t"

definition session :: "Connection \<Rightarrow> session" where
  "session c = (state c, if connect c = [] then None else Some (outgoing_address c))"

text \<open>What the program remembers of the choice.\<close>

definition session_inv :: "Config \<Rightarrow> Connection \<Rightarrow> bool" where
  "session_inv cfg c \<longleftrightarrow>
     (connect c \<noteq> [] \<longrightarrow> (send_play_server c \<longleftrightarrow> server_list cfg \<noteq> [])) \<and>
     (state c \<in> {INITIAL, CHECK_CREDENTIALS, SERVER_LIST} \<longleftrightarrow> connect c = [])"

lemma session_target:
  assumes "(session_step cfg)\<^sup>*\<^sup>* (INITIAL, None) (ph, Some a)"
  shows "a \<in> (if server_list cfg = [] then {game_server cfg} else server_address ` set (server_list cfg))"
proof -
  have "case snd t of None \<Rightarrow> True
    | Some a \<Rightarrow> a \<in> (if server_list cfg = [] then {game_server cfg} else server_address ` set (server_list cfg))"
    if "(session_step cfg)\<^sup>*\<^sup>* (INITIAL, None) t" for t
    using that by (induction rule: rtranclp_induct) (auto elim!: session_stepE split: if_splits)
  from this [OF assms] show ?thesis by simp
qed

text \<open>A step of a connection is a number of steps of its session.\<close>

definition implements :: "Config \<Rightarrow> Connection \<Rightarrow> Connection \<Rightarrow> bool" where
  "implements cfg c c' \<longleftrightarrow> (session_step cfg)\<^sup>*\<^sup>* (session c) (session c') \<and> session_inv cfg c'"

lemma implements_same:
  "session_inv cfg c \<Longrightarrow> state c' = state c \<Longrightarrow> connect c' = connect c \<Longrightarrow>
   outgoing_address c' = outgoing_address c \<Longrightarrow> send_play_server c' = send_play_server c \<Longrightarrow> implements cfg c c'"
  by (simp add: implements_def session_def session_inv_def)

lemma reject_login_not_live: "reject_login L io inst c \<noteq> Inr (inst', Live c')"
  by (auto simp: reject_login_def Destroy_not_live Let_def split: prod.splits)

lemma OnCheckCredentials_session:
  assumes "state c = CHECK_CREDENTIALS" and "connect c = []" and "\<not> send_play_server c"
    and "OnCheckCredentials L io user r inst c = Inr (inst', Live c')"
  shows "(session_step (config inst))\<^sup>*\<^sup>* (CHECK_CREDENTIALS, None) (session c') \<and> session_inv (config inst) c'"
proof -
  from assms(1,4) consider
    (list) "server_list (config inst) \<noteq> []" "state c' = SERVER_LIST" "connect c' = connect c"
  | (direct) "server_list (config inst) = []" "state c' = CONNECTING" "send_play_server c' = send_play_server c"
      "outgoing_address c' = game_server (config inst)" "connect c' \<noteq> []"
    by (auto simp: OnCheckCredentials_def SendServerList_def reject_login_not_live charge_def Let_def res_simps
        Destroy_not_live split: if_splits)
  then show ?thesis
    using assms(2,3) by cases (auto simp: session_def session_inv_def intro: session_step.intros)
qed

lemma HandleLoginPackets_session:
  assumes "connect c = []" and "\<not> send_play_server c"
    and "HandleLoginPackets L io inst c = Inr (inst', Live c')"
  shows "(session_step (config inst))\<^sup>*\<^sup>* (INITIAL, None) (session c') \<and> session_inv (config inst) c'"
proof -
  let ?c = "c\<lparr>incoming := EvCancelOnlyRead # incoming c, timeout := TmCancel # timeout c, state := CHECK_CREDENTIALS\<rparr>"
  from assms(3) obtain d act where
    C: "CheckCredentials (io_reload io) (database inst) = Inr (d, act)"
    by (auto simp: HandleLoginPackets_def Let_def res_simps reject_login_not_live Destroy_not_live split: if_splits)
  with assms(3) have r: "(\<exists>b user. OnCheckCredentials L io user b (inst\<lparr>database := d\<rparr>) ?c = Inr (inst', Live c')) \<or>
        (state c' = CHECK_CREDENTIALS \<and> connect c' = connect c \<and> send_play_server c' = send_play_server c)"
    by (cases act) (auto simp: HandleLoginPackets_def Let_def res_simps reject_login_not_live Destroy_not_live
        split: if_splits)
  have s: "session_step (config inst) (INITIAL, None) (CHECK_CREDENTIALS, None)" by (rule submit)
  from r show ?thesis
  proof
    assume "\<exists>b user. OnCheckCredentials L io user b (inst\<lparr>database := d\<rparr>) ?c = Inr (inst', Live c')"
    then obtain b user where "OnCheckCredentials L io user b (inst\<lparr>database := d\<rparr>) ?c = Inr (inst', Live c')" by blast
    from OnCheckCredentials_session [OF _ _ _ this] assms(1,2) s show ?thesis
      by (auto intro: converse_rtranclp_into_rtranclp)
  qed (use assms(1,2) s in \<open>auto simp: session_def session_inv_def\<close>)
qed

context event_lib
begin

lemma waiting_flags:
  assumes "flags_ok L s events" and "\<not> ev_IsReadPending L s" and "\<not> ev_IsWritePending L s"
  shows "has_event events (ev_DEAD_MASK L)"
  using assms by (auto simp: flags_ok_def)

lemma IncomingReady_session:
  assumes inv: "conn_inv L (config inst) c" "session_inv (config inst) c" and ok: "inst_ok inst c"
    and ev: "deliverable L (IncomingReady io events) c" "io_ok L (IncomingReady io events) inst c"
    and R: "OnIncomingReady L io events inst c = Inr (inst', Live c')"
  shows "implements (config inst) c c'"
proof -
  have alive: "\<not> has_event events (ev_DEAD_MASK L)"
    using R by (auto simp: OnIncomingReady_def noexcept_Inr_iff res_simps Destroy_not_live)
  show ?thesis
  proof (cases "state c")
    case INITIAL
    with inv have c: "connect c = []" "\<not> send_play_server c" by (simp_all add: conn_inv_def state_inv_def)
    from R alive INITIAL have "ReceiveLoginPackets L io inst c = Inr (inst', Live c')"
      by (auto simp: OnIncomingReady_def noexcept_Inr_iff res_simps)
    then obtain buf n where "c' = c\<lparr>initial_packets := buf, initial_packets_fill := n\<rparr> \<or>
        HandleLoginPackets L io inst (c\<lparr>initial_packets := buf, initial_packets_fill := n\<rparr>) = Inr (inst', Live c')"
      by (auto simp: ReceiveLoginPackets_def Let_def res_simps Destroy_not_live split: read_result.splits if_splits)
    then show ?thesis
      using implements_same [OF inv(2), of c'] c INITIAL
        HandleLoginPackets_session [of "c\<lparr>initial_packets := buf, initial_packets_fill := n\<rparr>" L io inst inst' c']
      by (auto simp: implements_def session_def)
  next
    case SERVER_LIST
    with inv(1) have c: "unat (initial_packets_fill c) = 83" "server_list (config inst) \<noteq> []" "connect c = []"
      by (simp_all add: conn_inv_def state_inv_def)
    from R alive SERVER_LIST have P: "ReceivePlayServer L io inst c = Inr (inst', Live c')"
      by (auto simp: OnIncomingReady_def noexcept_Inr_iff res_simps)
    then obtain n where n: "n < length (server_list (config inst))"
      "c' = chosen (server_address (server_list (config inst) ! n)) c"
      by (auto simp: ReceivePlayServer_eq [OF SERVER_LIST c(1,2)] Let_def Destroy_not_live
          split: read_result.splits if_splits)
    have "session_step (config inst) (SERVER_LIST, None) (CONNECTING, Some (server_address (server_list (config inst) ! n)))"
      using n(1) by (intro choose) simp
    with n(2) SERVER_LIST c show ?thesis
      by (auto simp: implements_def session_def session_inv_def chosen_def)
  next
    case READY
    from READY_carries [OF ok inv(1) READY ev(2)] R inv(2) show ?thesis
      by (auto simp: carries_def intro: implements_same)
  qed (use inv(1) ev(1) alive waiting_flags [of "incoming c" events] R in
      \<open>auto simp: conn_inv_def state_inv_def no_server_def OnIncomingReady_def noexcept_Inr_iff res_simps\<close>)
qed

lemma OutgoingReady_session:
  assumes inv: "conn_inv L (config inst) c" "session_inv (config inst) c" and ok: "inst_ok inst c"
    and ev: "deliverable L (OutgoingReady io events) c" "io_ok L (OutgoingReady io events) inst c"
    and R: "OnOutgoingReady L io events inst c = Inr (inst', Live c')"
  shows "implements (config inst) c c'"
proof (cases "state c")
  case SEND_PLAY_SERVER
  with R have "ReceiveServerList L io inst c = Inr (inst', Live c')"
    by (auto simp: OnOutgoingReady_def noexcept_Inr_iff res_simps Destroy_not_live split: if_splits)
  then have "state c' = READY \<and> connect c' = connect c \<and> outgoing_address c' = outgoing_address c \<and>
      send_play_server c' = send_play_server c"
    by (auto simp: ReceiveServerList_def Let_def Destroy_not_live split: read_result.splits if_splits)
  with SEND_PLAY_SERVER inv(2) show ?thesis
    by (auto simp: implements_def session_def session_inv_def intro!: r_into_rtranclp skip_list)
next
  case READY
  from READY_carries [OF ok inv(1) READY ev(2)] R inv(2) show ?thesis
    by (auto simp: carries_def intro: implements_same)
qed (use R in \<open>auto simp: OnOutgoingReady_def noexcept_Inr_iff res_simps Destroy_not_live split: if_splits\<close>)

lemma OnSocketConnectSuccess_session:
  assumes "session_inv (config inst) c" and "connect c \<noteq> []"
    and R: "OnSocketConnectSuccess L io fd inst c = Inr (inst', Live c')"
  shows "implements (config inst) c c'"
proof -
  from R have "state c = CONNECTING" "connect c' \<noteq> []" "outgoing_address c' = outgoing_address c"
    "send_play_server c' = send_play_server c"
    "state c' = (if send_play_server c then SEND_PLAY_SERVER else READY)"
    by (auto simp: OnSocketConnectSuccess_def Let_def res_simps Destroy_not_live split: if_splits)
  with assms(1,2) show ?thesis
    by (auto simp: implements_def session_def session_inv_def intro!: r_into_rtranclp play direct)
qed

lemma conn_handle_session:
  assumes inv: "conn_inv L (config inst) c" "session_inv (config inst) c" and ok: "inst_ok inst c"
    and ev: "deliverable L e c" "io_ok L e inst c" and R: "conn_handle L e inst c = Inr (inst', Live c')"
  shows "implements (config inst) c c'"
proof (cases e)
  case (IncomingReady io events)
  with IncomingReady_session [OF inv ok] ev R show ?thesis by simp
next
  case (OutgoingReady io events)
  with OutgoingReady_session [OF inv ok] ev R show ?thesis by simp
next
  case (Checked io user r)
  with R have s: "state c = CHECK_CREDENTIALS" by (auto simp: OnCheckCredentials_def res_simps)
  with inv(1) have "connect c = []" "\<not> send_play_server c" by (simp_all add: conn_inv_def state_inv_def)
  with OnCheckCredentials_session [OF s] R Checked s show ?thesis
    by (simp add: implements_def session_def)
next
  case (Connected io fd)
  with ev(1) have "connect c \<noteq> []" by auto
  with Connected OnSocketConnectSuccess_session [OF inv(2)] R show ?thesis by simp
qed (use R in \<open>auto simp: OnTimeout_def OnSocketConnectError_def Let_def res_simps Destroy_not_live\<close>)

lemma new_Connection_inv:
  assumes "length mem = 83" and "new_Connection L mem k fd address inst = Inr (inst', c)"
  shows "conn_inv L cfg c"
proof -
  have "has_event (ev_READ L OR ev_READ_HANGUP L) (ev_READ L)" "\<not> has_event (ev_READ L OR ev_READ_HANGUP L) (ev_WRITE L)"
    using READ_nonzero READ_WRITE_disjoint HANGUP_READ_disjoint HANGUP_WRITE_disjoint
    unfolding has_event_def by (metis bit.conj_disj_distrib2 or.right_neutral)+
  then show ?thesis
    using assms
    by (auto simp: new_Connection_def Let_def res_simps conn_inv_def state_inv_def no_server_def idle_splices_def
        split: option.splits)
qed

lemma conn_run_session:
  assumes "conn_run L cfg c up down c'" and "conn_inv L cfg c" and "session_inv cfg c"
  shows "conn_inv L cfg c' \<and> implements cfg c c' \<and> remote_address c' = remote_address c"
  using assms
proof (induction rule: conn_run.induct)
  case (run_none c)
  then show ?case by (simp add: implements_same)
next
  case (run_event c up down c' inst e inst' c'')
  then have c': "conn_inv L cfg c'" "implements cfg c c'" "remote_address c' = remote_address c" by simp_all
  have "conn_inv L cfg c'' \<and> remote_address c'' = remote_address c'"
    using conn_handle_effect [OF run_event.hyps(3) _ run_event.hyps(4) run_event.hyps(5,6)]
      c'(1) run_event.hyps(2,7) by (auto simp: effect_def live_effect_def)
  moreover have "implements cfg c' c''"
    using conn_handle_session [OF _ _ run_event.hyps(3,5,6,7)] c' run_event.hyps(2) by (simp add: implements_def)
  ultimately show ?case using c'(2,3) by (auto simp: implements_def)
qed

end

lemma newborn_session:
  assumes "event_lib L" and "length mem = 83" and "new_Connection L mem per_client fd address inst = Inr (inst', c)"
    and "conn_run L cfg c up down c'"
  shows "(session_step cfg)\<^sup>*\<^sup>* (INITIAL, None) (session c')"
proof -
  have c: "state c = INITIAL" "connect c = []"
    using assms(3) by (auto simp: new_Connection_def Let_def res_simps split: option.splits)
  then have "session_inv cfg c" by (simp add: session_inv_def)
  with event_lib.conn_run_session [OF assms(1,4) event_lib.new_Connection_inv [OF assms(1-3)]]
  have "implements cfg c c'" by blast
  with c show ?thesis by (simp add: implements_def session_def)
qed

text \<open>Without a user database, a login leads to the configured server at once.\<close>

definition sample_open_inst :: Instance where
  "sample_open_inst = sample_inst\<lparr>database := \<lparr>db = None, db_path = None, last_mtime = 0,
     last_reload_error = None, auto_reload = False, open_handles = [], opened = []\<rparr>\<rparr>"

definition sample_logged :: Connection where
  "sample_logged = sample_fresh\<lparr>state := CONNECTING, initial_packets := sample_packets, initial_packets_fill := 83,
     incoming := [EvScheduleRead, EvCancelOnlyRead, EvSchedule 0x2001, EvCtor 5],
     timeout := [TmCancel, TmSchedule (seconds 5)], outgoing_address := game_server sample_cfg,
     connect := [CnConnect (game_server sample_cfg) (seconds 10)]\<rparr>"

definition sample_credentials_event :: conn_event where
  "sample_credentials_event = IncomingReady (sample_io\<lparr>io_reads := (\<lambda>i. ReadBytes sample_packets)\<rparr>) 1"

lemma sample_fresh_new:
  "new_Connection ref_lib (replicate 83 0) None 5 (AddrInet [192, 0, 2, 1] 4711)
     (sample_inst\<lparr>next_id := 0, metrics := new_Metrics\<rparr>) =
   Inr (sample_inst\<lparr>metrics := new_Metrics\<lparr>client_connections := 1, client_connections_accepted := 1\<rparr>\<rparr>, sample_fresh)"
  by code_simp

lemma sample_logged_step:
  "conn_handle ref_lib sample_credentials_event sample_open_inst sample_fresh =
     Inr (sample_open_inst\<lparr>metrics := (metrics sample_open_inst)\<lparr>accepted_logins := 1\<rparr>\<rparr>, Live sample_logged)"
  by code_simp

lemma sample_login_ok:
  "config sample_open_inst = sample_cfg" "inst_ok sample_open_inst sample_fresh" "job_ok sample_open_inst sample_fresh"
  using sample_inst_ok
  by (simp_all add: inst_ok_def job_ok_def sample_open_inst_def sample_fresh_def sample_inst_def sample_conn_def
      db_inv_def)

end
