(* ===== verification/Service.thy ===== *)
theory Service
  imports Sample_Run Login_Session
begin

text \<open>
  The daemon does its work: a client with the right password is served.  The properties of the
  other theories exclude what must not happen; here a run of the whole daemon is
  composed, from the login packets to the forwarding, through the event loop and a worker
  thread.
\<close>

section \<open>Runs\<close>

abbreviation runs :: "lib \<Rightarrow> (nat \<Rightarrow> string \<Rightarrow> nat \<Rightarrow> get_answer) \<Rightarrow> System \<Rightarrow> System \<Rightarrow> bool" where
  "runs L G \<equiv> (\<lambda>s t. \<exists>e. sys_step L G s e t)\<^sup>*\<^sup>*"

lemma runs_step: "sys_step L G s e t \<Longrightarrow> runs L G s t"
  by blast

lemma runs_reach: "runs L G s t \<Longrightarrow> reach sys_init (sys_step L G) s \<Longrightarrow> reach sys_init (sys_step L G) t"
  by (induction rule: rtranclp_induct) (auto intro: reach_step)

text \<open>The daemon as a function of the shared state and of one of its connections.\<close>

definition hole :: "(Instance \<Rightarrow> Connection \<Rightarrow> System) \<Rightarrow> bool" where
  "hole H \<longleftrightarrow> (\<exists>s ls1 l ls2 cs1 cs2. \<not> sys_down s \<and>
     H = (\<lambda>inst c. s\<lparr>sys_inst := inst, sys_listeners := ls1 @ l\<lparr>connections := cs1 @ c # cs2\<rparr> # ls2\<rparr>))"

lemma holeE:
  assumes "\<not> sys_down s" and "c \<in> set (all_conns s)"
  obtains H where "hole H" and "s = H (sys_inst s) c"
proof -
  from assms(2) obtain l where l: "l \<in> set (sys_listeners s)" "c \<in> set (connections l)"
    by (auto simp: all_conns_def)
  from split_list [OF l(1)] split_list [OF l(2)] obtain ls1 ls2 cs1 cs2 where
    s: "sys_listeners s = ls1 @ l # ls2" "connections l = cs1 @ c # cs2" by blast
  let ?H = "\<lambda>inst c. s\<lparr>sys_inst := inst, sys_listeners := ls1 @ l\<lparr>connections := cs1 @ c # cs2\<rparr> # ls2\<rparr>"
  have "l\<lparr>connections := cs1 @ c # cs2\<rparr> = l" using s(2) by simp
  with s(1) have "s = ?H (sys_inst s) c" by simp
  moreover have "hole ?H" using assms(1) unfolding hole_def by blast
  ultimately show thesis using that by blast
qed

lemma hole_sel:
  assumes "hole H"
  shows "sys_inst (H inst c) = inst" and "c \<in> set (all_conns (H inst c))" and "\<not> sys_down (H inst c)"
    and "(H inst c)\<lparr>sys_inst := inst'\<rparr> = H inst' c"
  using assms by (auto simp: hole_def all_conns_def)

lemma hole_conn:
  assumes "hole H" and "\<not> is_Checked e" and "deliverable L e c" and "io_ok L e inst c"
    and "conn_handle L e inst c = Inr (inst', Live c')"
  shows "runs L G (H inst c) (H inst' c')"
proof -
  from assms(1) obtain s ls1 l ls2 cs1 cs2 where H: "\<not> sys_down s"
    "H = (\<lambda>inst c. s\<lparr>sys_inst := inst, sys_listeners := ls1 @ l\<lparr>connections := cs1 @ c # cs2\<rparr> # ls2\<rparr>)"
    by (auto simp: hole_def)
  let ?l = "l\<lparr>connections := cs1 @ c # cs2\<rparr>"
  have "sys_do L G (H inst c) (SysConn e)
      (put_listener (H inst c) ls1 ls2 (put_conn ?l cs1 cs2 (conn_handle L e (sys_inst (H inst c)) c)))"
    by (rule sys_do.do_conn) (use assms H in simp_all)
  then have "sys_step L G (H inst c) (SysConn e) (H inst' c')"
    using assms(5) H(2) by (simp add: sys_step_def put_listener_def put_conn_def survivors_def)
  then show ?thesis by (rule runs_step)
qed

lemma hole_checked:
  assumes "hole H" and "find_job i (jobs inst) = Some j" and "job_stage j = JobDone" and "\<not> job_canceled j"
    and "job_callback j = CbConnection (acc_id (accounting c))"
    and "OnCheckCredentials L io (job_username j) (job_result j) (inst\<lparr>jobs := delete_job i (jobs inst)\<rparr>) c = Inr (inst', Live c')"
  shows "runs L G (H inst c) (H inst' c')"
proof -
  from assms(1) obtain s ls1 l ls2 cs1 cs2 where H: "\<not> sys_down s"
    "H = (\<lambda>inst c. s\<lparr>sys_inst := inst, sys_listeners := ls1 @ l\<lparr>connections := cs1 @ c # cs2\<rparr> # ls2\<rparr>)"
    by (auto simp: hole_def)
  let ?l = "l\<lparr>connections := cs1 @ c # cs2\<rparr>" and ?q = "delete_job i (jobs inst)"
  have "job_Done i (jobs inst) =
      Inr (Some (CbConnection (acc_id (accounting c)), job_username j, job_result j), ?q)"
    using assms(2,4,5) by (simp add: job_Done_def)
  then have "sys_do L G (H inst c) (SysJobDone i io undefined)
      (put_listener (H inst c) ls1 ls2 (put_conn ?l cs1 cs2
        (conn_handle L (Checked io (job_username j) (job_result j)) ((sys_inst (H inst c))\<lparr>jobs := ?q\<rparr>) c)))"
    by (intro sys_do.do_done_conn) (use assms(2,3) H in simp_all)
  then have "sys_step L G (H inst c) (SysJobDone i io undefined) (H inst' c')"
    using assms(6) H(2) by (simp add: sys_step_def put_listener_def put_conn_def survivors_def)
  then show ?thesis by (rule runs_step)
qed

section \<open>A worker's steps\<close>

lemma find_set_job:
  assumes "find_job (job_id j) q = Some k"
  shows "find_job (job_id j) (set_job j q) = Some j"
  using assms by (induction q) (auto simp: find_job_def set_job_def split: if_splits)

lemma find_job_queue_Add:
  assumes "\<forall>k \<in> set q. job_id k < job_id j"
  shows "find_job (job_id j) (queue_Add j q) = Some j"
  using assms by (induction q) (auto simp: find_job_def queue_Add_def)

text \<open>A worker takes a waiting job and finds the password right.\<close>

lemma hole_worker:
  assumes "hole H" and j: "find_job (job_id j) (jobs inst) = Some j" "job_stage j = JobWaiting" "job_handle j = None"
    and ok: "CheckPassword L G (job_username j) (job_password j) (database inst) = Inr True"
  obtains q where "runs L G (H inst c) (H (inst\<lparr>jobs := q\<rparr>) c)"
    and "find_job (job_id j) q = Some (j\<lparr>job_result := True, job_stage := JobDone\<rparr>)"
proof -
  note S = hole_sel [OF assms(1)]
  let ?i = "job_id j" and ?b = "j\<lparr>job_stage := JobBusy\<rparr>" and ?d = "j\<lparr>job_result := True, job_stage := JobDone\<rparr>"
  let ?q1 = "set_job ?b (jobs inst)"
  let ?q2 = "set_job ?d ?q1"
  have f1: "find_job ?i ?q1 = Some ?b" using find_set_job [of ?b] j(1) by simp
  have f2: "find_job ?i ?q2 = Some ?d" using find_set_job [of ?d] f1 by simp
  have "job_Take ?i (jobs inst) = Some ?q1" using j by (simp add: job_Take_def)
  then have "sys_step L G (H inst c) (SysJobTake ?i) (H (inst\<lparr>jobs := ?q1\<rparr>) c)"
    using sys_do.do_take [of "H inst c" ?i ?q1 L G] S by (simp add: sys_step_def)
  moreover have "job_Run L G (database inst) ?i ?q1 = Inr ?q2"
    using f1 ok j(3) by (simp add: job_Run_def job_database_def)
  then have "sys_step L G (H (inst\<lparr>jobs := ?q1\<rparr>) c) (SysJobRun ?i) (H (inst\<lparr>jobs := ?q2\<rparr>) c)"
    using sys_do.do_run [of "H (inst\<lparr>jobs := ?q1\<rparr>) c" ?i ?b L G] S f1 by (simp add: sys_step_def)
  ultimately have "runs L G (H inst c) (H (inst\<lparr>jobs := ?q2\<rparr>) c)"
    by (rule rtranclp_trans [OF runs_step runs_step])
  with f2 show thesis using that by blast
qed

section \<open>The stages of a login\<close>

text \<open>Answers of the system for an event in which nothing goes wrong.\<close>

definition fine_io :: "reload_env \<Rightarrow> (nat \<Rightarrow> read_result) \<Rightarrow> int \<Rightarrow> io" where
  "fine_io env reads taken =
    \<lparr>io_now = 0, io_reads = reads, io_send = taken, io_stock = StockCreate (Inr (8, 9)),
     io_receive = SpliceInErr EAGAIN, io_flush = SpliceOutErr EAGAIN, io_forward = SpliceOutErr EAGAIN,
     io_reload = env\<rparr>"

lemma fine_io_ok [simp]: "pool_ok (fine_io env reads taken) m"
  by (simp add: pool_ok_def stock_answer_ok_def fine_io_def)

text \<open>A connection that forwards, after it sent the login to the server with the address.\<close>

definition served :: "AccountedClientConnection \<Rightarrow> sock_address \<Rightarrow> bytes \<Rightarrow> Connection \<Rightarrow> bool" where
  "served acc address login c \<longleftrightarrow>
     accounting c = acc \<and> state c = READY \<and> outgoing_address c = address \<and> SockSend login \<in> set (outgoing c)"

text \<open>Packets that pass the first checks.\<close>

definition good_packets :: "lib \<Rightarrow> Connection \<Rightarrow> bool" where
  "good_packets L c \<longleftrightarrow>
    (let p = decode_ExpectedPackets L (initial_packets c)
     in seed_cmd (expected_seed p) = Command_Seed \<and> login_cmd (expected_login p) = Command_AccountLogin \<and>
        IsValidUsername L (conn_user L c))"

context event_lib
begin

lemma readable_flags [simp]:
  "flags_ok L s (ev_READ L) \<longleftrightarrow> ev_IsDefined L s \<and> ev_IsReadPending L s"
  "\<not> has_event (ev_READ L) (ev_DEAD_MASK L)" "has_event (ev_READ L) (ev_READ L)"
  "\<not> has_event (ev_READ L) (ev_WRITE L)"
  using DEAD_READ_disjoint READ_nonzero READ_WRITE_disjoint by (auto simp: flags_ok_def has_event_def)

lemma hole_inv:
  assumes "hole H" and "reach sys_init (sys_step L G) (H inst c)"
  shows "conn_inv L (config inst) c" and "inst_ok inst c" and "\<forall>j \<in> set (jobs inst). job_id j < next_id inst"
proof -
  note S = hole_sel [OF assms(1)]
  have W: "world_inv L inst (all_conns (H inst c)) (all_delayed (H inst c))"
    using sys_inv_world [OF reach_sys_inv [OF event_lib_axioms assms(2)]] S(1) by simp
  show "conn_inv L (config inst) c" using world_parts(5) [OF W S(2)] .
  have "mset (c # remove1 c (all_conns (H inst c))) = mset (all_conns (H inst c))" using S(2) by simp
  from world_inst_ok(1) [OF world_perm [OF W this refl]] show "inst_ok inst c" .
  show "\<forall>j \<in> set (jobs inst). job_id j < next_id inst" using world_parts(2) [OF W] by (simp add: jobs_inv_def)
qed

text \<open>The packets are complete: a check is queued.\<close>

lemma login_received:
  assumes H: "hole H" "reach sys_init (sys_step L G) (H inst c)" and c: "state c = INITIAL"
    and bs: "unat (initial_packets_fill c) + length bs = 83" and good: "good_packets L (filled bs c)"
    and db: "CheckCredentials env (database inst) = Inr (d, QueueJob)"
  obtains inst' c' j where "runs L G (H inst c) (H inst' c')" "state c' = CHECK_CREDENTIALS"
    "accounting c' = accounting c" "initial_packets c' = initial_packets (filled bs c)"
    "remote_address c' = remote_address c" "config inst' = config inst" "database inst' = d"
    "find_job (job_id j) (jobs inst') = Some j" "job_stage j = JobWaiting" "job_handle j = None" "\<not> job_canceled j"
    "job_callback j = CbConnection (acc_id (accounting c'))" "job_username j = conn_user L c'"
    "job_password j = conn_pass L c'"
proof -
  note inv = hole_inv [OF H]
  have st: "ev_IsDefined L (incoming c)" "ev_IsReadPending L (incoming c)" "connect c = []"
    "length (initial_packets c) = 83" "unat (initial_packets_fill c) < 83"
    using inv(1) c by (simp_all add: conn_inv_def state_inv_def)
  have "bs \<noteq> []" using bs st(5) by (cases bs) auto
  let ?i = "next_id inst" and ?f = "filled bs c"
  let ?io = "fine_io env (\<lambda>i. ReadBytes bs) 0"
  let ?c = "?f\<lparr>incoming := EvCancelOnlyRead # incoming c, timeout := TmCancel # timeout c,
    state := CHECK_CREDENTIALS, cancel_ptr := Some ?i\<rparr>"
  let ?j = "new_CheckCredentialsJob ?i (conn_user L ?f) (conn_pass L ?f) (CbConnection (acc_id (accounting c)))"
  let ?inst = "inst\<lparr>database := d, jobs := queue_Add ?j (jobs inst), next_id := ?i + 1\<rparr>"
  have io: "?io = (fine_io env r 0)\<lparr>io_reads := (\<lambda>i. ReadBytes bs)\<rparr>" for r by (simp add: fine_io_def)
  have "HandleLoginPackets L (fine_io env r 0) inst ?f = Inr (?inst, Live ?c)" for r
    using good db by (simp add: HandleLoginPackets_def good_packets_def Let_def fine_io_def conn_user_def conn_pass_def filled_def)
  then have "OnIncomingReady L ?io (ev_READ L) inst c = Inr (?inst, Live ?c)"
    using OnIncomingReady_piece [OF c st(3,4) _ \<open>bs \<noteq> []\<close>, of "fine_io env undefined 0" inst] bs io [of undefined] by simp
  then have R: "runs L G (H inst c) (H ?inst ?c)"
    using st(1,2) by (intro hole_conn [OF H(1), of "IncomingReady ?io (ev_READ L)"]) simp_all
  have F: "find_job ?i (queue_Add ?j (jobs inst)) = Some ?j"
    using find_job_queue_Add [of "jobs inst" ?j] inv(3) by (simp add: new_CheckCredentialsJob_def)
  show thesis
    by (rule that [OF R, of ?j])
      (use F in \<open>simp_all add: new_CheckCredentialsJob_def filled_def conn_user_def conn_pass_def\<close>)
qed

text \<open>The check accepts: a server is connected to, or the list of servers is shown.\<close>

lemma login_accepted:
  assumes H: "hole H" "reach sys_init (sys_step L G) (H inst c)" and c: "state c = CHECK_CREDENTIALS"
    and j: "find_job (job_id j) (jobs inst) = Some j" "job_stage j = JobWaiting" "job_handle j = None" "\<not> job_canceled j"
      "job_callback j = CbConnection (acc_id (accounting c))"
    and ok: "CheckPassword L G (job_username j) (job_password j) (database inst) = Inr True"
  obtains inst' c' where "runs L G (H inst c) (H inst' c')" "accounting c' = accounting c"
    "initial_packets c' = initial_packets c" "remote_address c' = remote_address c" "config inst' = config inst"
    "if server_list (config inst) = [] then state c' = CONNECTING \<and> outgoing_address c' = game_server (config inst) \<and>
       \<not> send_play_server c' else state c' = SERVER_LIST"
proof -
  from hole_worker [OF H(1) j(1-3) ok] obtain q where q: "runs L G (H inst c) (H (inst\<lparr>jobs := q\<rparr>) c)"
    "find_job (job_id j) q = Some (j\<lparr>job_result := True, job_stage := JobDone\<rparr>)" .
  note inv = hole_inv [OF H]
  have fill: "unat (initial_packets_fill c) = 83" "\<not> send_play_server c"
    using inv(1) c by (simp_all add: conn_inv_def state_inv_def)
  let ?io = "fine_io undefined undefined 0" and ?c = "c\<lparr>cancel_ptr := None\<rparr>"
    and ?i = "inst\<lparr>jobs := delete_job (job_id j) q\<rparr>"
  have "inst_ok ?i ?c" using inv(2) by (simp add: inst_ok_def)
  from charge_ok [OF this, of L "io_now ?io" 1] obtain i where i: "charge L (io_now ?io) 1 ?i ?c = Inr i"
    "config i = config inst" by (auto simp: quiet_def)
  let ?m = "i\<lparr>metrics := (metrics i)\<lparr>accepted_logins := accepted_logins (metrics i) + 1\<rparr>\<rparr>"
  have "OnCheckCredentials L ?io (job_username j) True ?i c =
      (if server_list (config inst) = []
       then Inr (?m, Live (?c\<lparr>state := CONNECTING, incoming := EvScheduleRead # incoming c,
              outgoing_address := game_server (config inst),
              connect := CnConnect (game_server (config inst)) (seconds 10) # connect c\<rparr>))
       else SendServerList L ?io ?m ?c)"
    using c i by (simp add: OnCheckCredentials_def Let_def)
  moreover have "\<exists>c'. SendServerList L ?io ?m ?c = Inr (?m, Live c') \<and> state c' = SERVER_LIST \<and>
      accounting c' = accounting c \<and> initial_packets c' = initial_packets c \<and> remote_address c' = remote_address c"
    if "server_list (config inst) \<noteq> []"
    using that fill i(2) by (simp add: SendServerList_def Let_def fine_io_def)
  ultimately obtain c' where C: "OnCheckCredentials L ?io (job_username j) True ?i c = Inr (?m, Live c')"
    "accounting c' = accounting c" "initial_packets c' = initial_packets c" "remote_address c' = remote_address c"
    "if server_list (config inst) = [] then state c' = CONNECTING \<and> outgoing_address c' = game_server (config inst) \<and>
       \<not> send_play_server c' else state c' = SERVER_LIST"
    using fill(2) by (cases "server_list (config inst) = []") auto
  have "runs L G (H (inst\<lparr>jobs := q\<rparr>) c) (H ?m c')"
    by (rule hole_checked [OF H(1), of "job_id j" _ "j\<lparr>job_result := True, job_stage := JobDone\<rparr>"])
      (use q(2) j(4,5) C(1) in simp_all)
  with q(1) have "runs L G (H inst c) (H ?m c')" by (rule rtranclp_trans)
  then show thesis by (rule that) (use C(2-5) i(2) in simp_all)
qed

text \<open>The client chooses a server.\<close>

lemma server_chosen:
  assumes H: "hole H" "reach sys_init (sys_step L G) (H inst c)" and c: "state c = SERVER_LIST"
    and "packed_be L" and n: "n < length (server_list (config inst))" "n < 65536"
  shows "runs L G (H inst c) (H inst (chosen (server_address (server_list (config inst) ! n)) c))"
proof -
  note inv = hole_inv [OF H]
  have st: "ev_IsDefined L (incoming c)" "ev_IsReadPending L (incoming c)" "connect c = []"
    "unat (initial_packets_fill c) = 83"
    using inv(1) c by (simp_all add: conn_inv_def state_inv_def)
  let ?p = "\<lparr>play_cmd = Command_PlayServer, play_index = of_nat n\<rparr>"
  let ?io = "fine_io undefined (\<lambda>i. ReadBytes (encode_play_server L ?p)) 0"
  note codec = packed_be.play_server_codec [OF assms(4)]
  have p: "length (encode_play_server L ?p) = 3" "decode_play_server L (encode_play_server L ?p) = ?p"
    using fixed_codec.enc_length [OF codec] fixed_codec.dec_enc [OF codec] by simp_all
  have "server_list (config inst) \<noteq> []" using n(1) by auto
  from ReceivePlayServer_eq [OF c st(4) this, of L ?io]
  have "ReceivePlayServer L ?io inst c =
      Inr (inst, Live (chosen (server_address (server_list (config inst) ! n)) c))"
    using p n by (simp add: fine_io_def unat_u16)
  then have "OnIncomingReady L ?io (ev_READ L) inst c =
      Inr (inst, Live (chosen (server_address (server_list (config inst) ! n)) c))"
    using c st(3) by (simp add: OnIncomingReady_def)
  then show ?thesis
    using st(1,2) by (intro hole_conn [OF H(1), of "IncomingReady ?io (ev_READ L)"]) simp_all
qed

text \<open>The server accepts the connection and is sent the login.\<close>

lemma server_connected:
  assumes H: "hole H" "reach sys_init (sys_step L G) (H inst c)" and c: "state c = CONNECTING"
  obtains inst' c' where "runs L G (H inst c) (H inst' c')" "accounting c' = accounting c"
    "outgoing_address c' = outgoing_address c" "config inst' = config inst"
    "SockSend (initial_vector L (config inst) c) \<in> set (outgoing c')"
    "state c' = (if send_play_server c then SEND_PLAY_SERVER else READY)"
proof -
  note inv = hole_inv [OF H]
  have st: "connect_IsPending L (connect c)" "unat (initial_packets_fill c) = 83"
    using inv(1) c by (simp_all add: conn_inv_def state_inv_def)
  let ?v = "initial_vector L (config inst) c"
  let ?io = "fine_io undefined undefined (int (length ?v))"
  have v: "?v \<noteq> []" "sock_send (int (length ?v)) ?v [] = [SockSend ?v]"
    "initial_vector L (config inst) (c\<lparr>connect := x\<rparr>) = ?v" for x
    by (simp_all add: initial_vector_def encode_account_login_def sock_send_def Let_def)
  then have "\<exists>inst' c'. OnSocketConnectSuccess L ?io 6 inst c = Inr (inst', Live c') \<and> accounting c' = accounting c \<and>
      outgoing_address c' = outgoing_address c \<and> config inst' = config inst \<and> SockSend ?v \<in> set (outgoing c') \<and>
      state c' = (if send_play_server c then SEND_PLAY_SERVER else READY)"
    using c st(2)
    by (cases "send_play_server c")
      (simp_all add: OnSocketConnectSuccess_def SendInitialPackets_def fine_io_def Let_def)
  then obtain inst' c' where C: "OnSocketConnectSuccess L ?io 6 inst c = Inr (inst', Live c')"
    "accounting c' = accounting c" "outgoing_address c' = outgoing_address c" "config inst' = config inst"
    "SockSend ?v \<in> set (outgoing c')" "state c' = (if send_play_server c then SEND_PLAY_SERVER else READY)" by blast
  have "runs L G (H inst c) (H inst' c')"
    by (rule hole_conn [OF H(1), of "Connected ?io 6"]) (use st C(1) in simp_all)
  then show thesis by (rule that) (use C in simp_all)
qed

text \<open>The server's own list is skipped.\<close>

lemma list_skipped:
  assumes H: "hole H" "reach sys_init (sys_step L G) (H inst c)" and c: "state c = SEND_PLAY_SERVER"
    and "packed_be L"
  obtains c' where "runs L G (H inst c) (H inst c')" "accounting c' = accounting c" "state c' = READY"
    "outgoing_address c' = outgoing_address c" "set (outgoing c) \<subseteq> set (outgoing c')"
proof -
  note inv = hole_inv [OF H]
  have st: "ev_IsDefined L (incoming c)" "ev_IsDefined L (outgoing c)" "ev_IsReadPending L (outgoing c)"
    "\<not> connect_IsPending L (connect c)"
    using inv(1) c by (simp_all add: conn_inv_def state_inv_def)
  let ?reads = "\<lambda>i. ReadBytes (if i = 0 then [Command_ServerList] else if i = 1 then be16_store L 46 else [0])"
  let ?io = "fine_io undefined ?reads 3"
  let ?c = "c\<lparr>outgoing := sock_send 3 (encode_play_server L \<lparr>play_cmd = Command_PlayServer, play_index = 0\<rparr>) (outgoing c),
    incoming := EvScheduleRead # incoming c, state := READY\<rparr>"
  have be: "length (be16_store L 46) = 2" "be16_load L (be16_store L 46) = 46"
    using packed_be.be16_length [OF assms(4)] packed_be.be16_load_store [OF assms(4)] by simp_all
  have "\<exists>b bs. ?reads k = ReadBytes (b # bs)" for k
    using be(1) by (cases "be16_store L 46") auto
  then have d: "fst (Discard ?reads 2 43)" by (intro Discard_succeeds) blast
  have "ReceiveServerList L ?io inst c = Inr (inst, Live ?c)"
    using be d by (simp add: ReceiveServerList_def fine_io_def sizeof_server_list_def sizeof_server_info_def Let_def)
  then have "OnOutgoingReady L ?io (ev_READ L) inst c = Inr (inst, Live ?c)"
    using c st by (simp add: OnOutgoingReady_def)
  then have "runs L G (H inst c) (H inst ?c)"
    using st by (intro hole_conn [OF H(1), of "OutgoingReady ?io (ev_READ L)"]) simp_all
  then show thesis by (rule that) (auto simp: sock_send_def)
qed

text \<open>From the list to the forwarding.\<close>

lemma choice_served:
  assumes H: "hole H" "reach sys_init (sys_step L G) (H inst c)" and c: "state c = SERVER_LIST"
    and be: "packed_be L" and n: "n < length (server_list (config inst))" "n < 65536"
  obtains inst' c' where "runs L G (H inst c) (H inst' c')"
    "served (accounting c) (server_address (server_list (config inst) ! n)) (initial_vector L (config inst) c) c'"
proof -
  let ?a = "server_address (server_list (config inst) ! n)"
  note r1 = server_chosen [OF H c be n]
  note h1 = runs_reach [OF r1 H(2)]
  have "state (chosen ?a c) = CONNECTING" by (simp add: chosen_def)
  from server_connected [OF H(1) h1 this] obtain inst2 c2 where
    r2: "runs L G (H inst (chosen ?a c)) (H inst2 c2)" and
    c2: "accounting c2 = accounting (chosen ?a c)" "outgoing_address c2 = outgoing_address (chosen ?a c)"
      "SockSend (initial_vector L (config inst) (chosen ?a c)) \<in> set (outgoing c2)"
      "state c2 = (if send_play_server (chosen ?a c) then SEND_PLAY_SERVER else READY)" .
  have s2: "state c2 = SEND_PLAY_SERVER" using c2(4) by (simp add: chosen_def)
  from list_skipped [OF H(1) runs_reach [OF r2 h1] s2 be] obtain c3 where
    r3: "runs L G (H inst2 c2) (H inst2 c3)" and
    c3: "accounting c3 = accounting c2" "state c3 = READY" "outgoing_address c3 = outgoing_address c2"
      "set (outgoing c2) \<subseteq> set (outgoing c3)" .
  have "initial_vector L (config inst) (chosen ?a c) = initial_vector L (config inst) c"
    by (simp add: initial_vector_def chosen_def)
  then have "served (accounting c) ?a (initial_vector L (config inst) c) c3"
    using c2(1-3) c3 by (auto simp: served_def chosen_def)
  with rtranclp_trans [OF rtranclp_trans [OF r1 r2] r3] show thesis by (rule that)
qed

lemma accepted_served:
  assumes H: "hole H" "reach sys_init (sys_step L G) (H inst c)" and be: "packed_be L" and cfg: "config inst = cfg"
    and c: "if server_list cfg = [] then state c = CONNECTING \<and> outgoing_address c = game_server cfg \<and>
       \<not> send_play_server c else state c = SERVER_LIST"
    and n: "server_list cfg \<noteq> [] \<longrightarrow> n < length (server_list cfg) \<and> n < 65536"
  obtains inst' c' where "runs L G (H inst c) (H inst' c')"
    "served (accounting c) (if server_list cfg = [] then game_server cfg else server_address (server_list cfg ! n))
      (initial_vector L cfg c) c'"
proof (cases "server_list cfg = []")
  case True
  with c have s: "state c = CONNECTING" "outgoing_address c = game_server cfg" "\<not> send_play_server c" by auto
  from server_connected [OF H s(1)] obtain inst' c' where r: "runs L G (H inst c) (H inst' c')" and
    c': "accounting c' = accounting c" "outgoing_address c' = outgoing_address c"
      "SockSend (initial_vector L (config inst) c) \<in> set (outgoing c')"
      "state c' = (if send_play_server c then SEND_PLAY_SERVER else READY)" .
  from r show thesis by (rule that) (use c' s True cfg in \<open>simp add: served_def\<close>)
next
  case False
  with c have s: "state c = SERVER_LIST" by auto
  have n': "n < length (server_list (config inst))" "n < 65536" using n False cfg by auto
  from choice_served [OF H s be n'] obtain inst' c' where r: "runs L G (H inst c) (H inst' c')" and
    c': "served (accounting c) (server_address (server_list (config inst) ! n)) (initial_vector L (config inst) c) c'" .
  from r show thesis by (rule that) (use c' False cfg in simp)
qed

end

text \<open>
  C3. A client with the right password can be served.  Take any reachable state of the running daemon and any
  connection that is still waiting for its login: if the bytes that are missing complete a seed and a
  login packet with a valid user name, if the user database can be used, and if the check of the password against it
  succeeds, then the daemon can go on, through the event loop and a worker thread, to a
  state in which the connection is ready, is connected to the game server or to the server that the client
  chose from the list, and has sent it the login.
\<close>

theorem right_password_served:
  assumes "event_lib L" and "packed_be L" and "reach sys_init (sys_step L G) s" and "\<not> sys_down s"
    and "c \<in> set (all_conns s)" and "state c = INITIAL"
    and "unat (initial_packets_fill c) + length bs = 83" and "good_packets L (filled bs c)"
    and "CheckCredentials env (database (sys_inst s)) = Inr (d, QueueJob)"
    and "CheckPassword L G (conn_user L (filled bs c)) (conn_pass L (filled bs c)) d = Inr True"
    and "cfg = config (sys_inst s)"
    and "server_list cfg \<noteq> [] \<longrightarrow> n < length (server_list cfg) \<and> n < 65536"
  shows "\<exists>t c'. runs L G s t \<and> c' \<in> set (all_conns t) \<and>
    served (accounting c)
      (if server_list cfg = [] then game_server cfg else server_address (server_list cfg ! n))
      (initial_vector L cfg (filled bs c)) c'"
proof -
  from holeE [OF assms(4,5)] obtain H where H: "hole H" "s = H (sys_inst s) c" .
  have h0: "reach sys_init (sys_step L G) (H (sys_inst s) c)" using assms(3) H(2) by simp
  note ev = assms(1)
  from event_lib.login_received [OF ev H(1) h0 assms(6-9)] obtain inst1 c1 j where
    r1: "runs L G (H (sys_inst s) c) (H inst1 c1)" and
    c1: "state c1 = CHECK_CREDENTIALS" "accounting c1 = accounting c" "initial_packets c1 = initial_packets (filled bs c)"
      "remote_address c1 = remote_address c" "config inst1 = cfg" "database inst1 = d" and
    j: "find_job (job_id j) (jobs inst1) = Some j" "job_stage j = JobWaiting" "job_handle j = None" "\<not> job_canceled j"
      "job_callback j = CbConnection (acc_id (accounting c1))" and
    up: "job_username j = conn_user L c1" "job_password j = conn_pass L c1" using assms(11) by blast
  note h1 = runs_reach [OF r1 h0]
  have "CheckPassword L G (job_username j) (job_password j) (database inst1) = Inr True"
    using assms(10) c1(3,6) up by (simp add: conn_user_def conn_pass_def)
  from event_lib.login_accepted [OF ev H(1) h1 c1(1) j this] obtain inst2 c2 where
    r2: "runs L G (H inst1 c1) (H inst2 c2)" and
    c2: "accounting c2 = accounting c1" "initial_packets c2 = initial_packets c1" "remote_address c2 = remote_address c1"
      "config inst2 = config inst1"
      "if server_list (config inst1) = [] then state c2 = CONNECTING \<and> outgoing_address c2 = game_server (config inst1) \<and>
         \<not> send_play_server c2 else state c2 = SERVER_LIST" .
  note h2 = runs_reach [OF r2 h1] and r = rtranclp_trans [OF r1 r2]
  have v: "initial_vector L cfg c2 = initial_vector L cfg (filled bs c)"
    using c1(3,4) c2(2,3) by (simp add: initial_vector_def filled_def)
  have cfg2: "config inst2 = cfg" using c1(5) c2(4) by simp
  from event_lib.accepted_served [OF ev H(1) h2 assms(2) cfg2 c2(5) [unfolded c1(5)] assms(12)]
  obtain inst3 c3 where r3: "runs L G (H inst2 c2) (H inst3 c3)" and c3: "served (accounting c2)
      (if server_list cfg = [] then game_server cfg else server_address (server_list cfg ! n))
      (initial_vector L cfg c2) c3" .
  have "runs L G s (H inst3 c3)" using rtranclp_trans [OF r r3] H(2) by simp
  moreover have "c3 \<in> set (all_conns (H inst3 c3))" using hole_sel(2) [OF H(1)] .
  ultimately show ?thesis using c3 c1(2) c2(1) v by (intro exI [of _ "H inst3 c3"] exI [of _ c3]) simp
qed

lemma sample_login_data:
  "good_packets ref_lib (filled sample_packets sample_new)"
  "CheckPassword ref_lib sample_G (conn_user ref_lib (filled sample_packets sample_new))
     (conn_pass ref_lib (filled sample_packets sample_new)) (database sample_inst) = Inr True"
  "unat (initial_packets_fill sample_new) + length sample_packets = 83"
  by code_simp+

theorem right_password_served_witness:
  "\<exists>t c'. runs ref_lib sample_G (sample_state 0 [] 1 1 sample_new) t \<and> c' \<in> set (all_conns t) \<and>
     served (accounting sample_new) (AddrInet [10, 0, 0, 1] 2593)
       (initial_vector ref_lib sample_cfg (filled sample_packets sample_new)) c'"
proof -
  let ?s = "sample_state 0 [] 1 1 sample_new"
  have "CheckCredentials undefined (database (sys_inst ?s)) = Inr (database sample_inst, QueueJob)"
    by (simp add: sample_state_sel) (simp add: sample_inst_def CheckCredentials_def)
  moreover have "state sample_new = INITIAL" by (simp add: sample_new_def)
  moreover have "sample_cfg = config (sys_inst ?s)" by (simp add: sample_state_def sample_inst_def)
  moreover have "server_list sample_cfg = []" "game_server sample_cfg = AddrInet [10, 0, 0, 1] 2593"
    by (simp_all add: sample_cfg_def)
  ultimately show ?thesis
    using right_password_served [OF ref_events.event_lib_axioms ref_be.packed_be_axioms sample_reach_states(1),
        of sample_new sample_packets undefined "database sample_inst" sample_cfg] sample_login_data
    by (simp add: sample_state_sel)
qed

end
