(* ===== verification/Transparency.thy ===== *)
theory Transparency
  imports Login_Session "HOL-Library.Sublist"
begin

text \<open>
  The proxy seen from its two ends: over the whole life of a connection (src/Connection.cxx), the
  bytes the server is sent and the bytes the client is sent, as functions of the bytes
  that were taken from the client and from the server.
\<close>

section \<open>What was taken and what was sent, state by state\<close>






lemma initial_vector_connect [simp]: "initial_vector L cfg (c\<lparr>connect := x\<rparr>) = initial_vector L cfg c"
  by (simp add: initial_vector_def)

section \<open>One event\<close>





section \<open>Property\<close>










end
