(* ===== verification/Composition.thy ===== *)
theory Composition
  imports Sample_Run Transparency
begin

text \<open>
  The connections of the daemon: what happens to one of them while the event loop, the worker threads and the other
  connections go on is a run of that connection alone, so that everything that was shown for single connections
  holds for the daemon (src/Listener.cxx, src/DelayedConnection.cxx, src/Connection.cxx).
\<close>

section \<open>The life of a connection\<close>









section \<open>Every event of the daemon\<close>







section \<open>Properties\<close>





end
