(* ===== verification/Spec2Isabelle.thy ===== *)
theory Spec2Isabelle
  imports Admission Service Composition Configuration Uo_Command Nft
begin

text \<open>
  uologin is a login proxy for Ultima Online game servers.  Clients connect by TCP and send a seed and
  a login packet; the daemon checks the user name and the password against a Berkeley DB file, optionally
  lets the client choose from a list of servers, connects to a game server, sends it the login, and
  from then on copies bytes in both directions through kernel pipes.  Clients are accounted by address: each has
  a limit of connections and a token bucket, and clients that exceed it are delayed (the tarpit).
  Optionally a client must first knock, that is, send its login packet by UDP; an accepted knock
  can also be added to an nftables set.

  \<^bold>\<open>The parts and their theories.\<close>  Every definition keeps the name of the function, type or member it
  models; names that several classes share carry the class first (\<open>Listener_AddConnection\<close>), and constructors and destructors are
  called \<open>new_C\<close> and \<open>C_destroy\<close>.  All sources are under src/src/.

  \<^item> \<open>Prelude\<close>: words and bytes, buffers, faults and the result monad, reachability and the locale
    \<open>invariant_of\<close> of state machines with an invariant.
  \<^item> \<open>Libraries\<close>: what the sources use of libcommon and libsodium, which are not part of them: the
    record \<open>lib\<close> of functions, the locales of their documented behaviour, and the instance \<open>ref_lib\<close>.  A
    library object whose methods the program only calls (\<open>SocketEvent\<close>, a timer, \<open>ConnectSocket\<close>,
    \<open>TokenBucket\<close>) is the list of the calls made on it, newest first.
  \<^item> \<open>Uo_Command\<close>, \<open>Uo_Packets\<close>: uo/Command.hxx, uo/Packets.hxx, uo/String.hxx, Validate.hxx.
  \<^item> \<open>Client_Accounting\<close>: net/ClientAccounting.cxx, net/AccountedClientConnection.cxx and their headers.
  \<^item> \<open>Pipe_Splice\<close>: PipeStock.cxx, Splice.cxx.
  \<^item> \<open>Credentials_Database\<close>: BerkeleyDB.cxx, Database.cxx, with the jobs of the thread pool.
  \<^item> \<open>Configuration\<close>, \<open>Nft\<close>: Config.cxx, CommandLine.cxx, Nftables.cxx.
  \<^item> \<open>Instance_State\<close>: the members of the class Instance and the text of the metrics.
  \<^item> \<open>Connection_Model\<close>: Connection.hxx and Connection.cxx, every handler; \<open>Connection_Safety\<close>: the
    invariant of a connection and what each handler does to the shared state; \<open>Connection_Properties\<close>:
    what single handlers achieve; \<open>Forwarding\<close>: the two byte streams of a ready connection;
    \<open>Login_Session\<close>: the login in pieces, and the abstract session protocol with its refinement;
    \<open>Transparency\<close>: all bytes of a connection's life, from its two ends; \<open>Composition\<close>: each connection of the daemon
    lives a run of its own, so that what holds for single connections holds in the daemon;
    \<open>Service\<close>: a client with the right password reaches its server, as a run of the whole daemon.
  \<^item> \<open>Listener_Model\<close>, \<open>Knock_Model\<close>: Listener.cxx, DelayedConnection.cxx, KnockListener.cxx; \<open>Admission\<close>:
    the policy of the listener against a reference definition, and who counts as having knocked.
  \<^item> \<open>System_Model\<close>: the daemon as a labelled transition relation \<open>sys_do\<close>; \<open>System_Safety\<close> and
    \<open>System_Invariant\<close>: its invariant; \<open>Sample_Run\<close>: a concrete run; this theory: the
    properties of the whole daemon.

  \<^bold>\<open>State and effects.\<close>  A handler is a function of the instance (a record of everything
    the objects share), the object itself and the answers of the system (record \<open>io\<close>: what is read, how much is sent, what
    \<open>splice(2)\<close>, the pipe pool and \<open>stat\<close> yield).  It returns \<open>Inl f\<close> if the process stops, where \<open>f\<close> is the failed assertion, the
    \<open>noexcept\<close> function an exception leaves, or an access to a deleted object, each with its file
    and line; otherwise the new instance and object.  A handler that executes \<open>delete this\<close> yields
    \<open>Destroyed\<close>.  The thread pool's jobs have an identity and a stage, and their steps on worker threads
    interleave with the event loop in \<open>sys_do\<close>: a worker takes a job, reads the database handle, and has the result
    later, when a reload may have closed that handle.  The files that were opened are kept as a history.  Machine integers are words of their width; times are integers (nanoseconds); the
    \<open>double\<close>s of the token bucket are rationals, all of whose operations are in the library.

  \<^bold>\<open>What is proved.\<close>  The whole daemon: how it starts; which failures can occur in a reachable state and that no deleted object
  is ever used, except for a database that is closed while a worker reads it; nobody gets past the password check, or counts as having knocked, without one; the counters and the limit of
  connections; every waiting state has something to end it; a client with the right password can be served; shutdown.  A connection: its login does not depend on how the
  network cuts the packets, its states refine a session protocol that leads only to configured servers, over its whole
  life the server is sent the login and the client's further bytes and nothing else, and the client the server's, in order, and a stream that was blocked once is never read again (a defect); and
  the daemon is the composition of such connections.  The
  components: the listener follows its policy, the accounting's registry agrees with the connections that exist, the tarpit's
  delays, cleanup; splicing loses, duplicates and reorders nothing; database handles are closed exactly
  once, reload errors, password checks, the life of a job; the packets that are sent and
  how those that are received are interpreted; parsing of the configuration; the nftables command; the text of the
  metrics.

  \<^bold>\<open>Bounds.\<close>  No fuel is used.  The loops (\<open>Discard\<close>, the parsing of lines, the waiting for \<open>nft\<close>)
  recurse on what they consume; only waiting for \<open>nft\<close> has the outcome \<open>None\<close>, when the results of
  \<open>waitpid\<close> that are given are used up.

  \<^bold>\<open>Not modelled.\<close>  Output to \<open>stderr\<close>; failing memory allocation; the event loop, sockets, timers,
  thread pool, pool of pipes, configuration tokeniser and address resolver of libcommon (library
  parameters); the HTTP side of the metrics; the systemd watchdog and \<open>sd_notify\<close>; the signal mask of the
  \<open>nft\<close> process; the signal and thread settings of \<open>main\<close>; anything after \<open>OnShutdown\<close> but
  the destructor of the instance; data races finer than the three steps of a job.
\<close>

section \<open>Properties of the daemon\<close>

text \<open>
  C1. The daemon is safe except for a short list of known failures.  In every reachable
  state, whatever event happens and whatever the system answers: no handler of the event loop touches a deleted
  object, and if the process stops at an assertion or in \<open>std::terminate\<close> then it is because a
  client sent data while its server connection was still being set up, no pipe could be created, a
  reload failed during a knock, or in a worker thread that checks a password: because there was no database,
  libdb reported an error, or a reload has closed the database that is being read, which is the only use of a
  freed object.
\<close>

theorem daemon_faults:
  assumes "event_lib L" and "reach sys_init (sys_step L G) s" and "sys_do L G s e (Inl f)"
  shows "sys_fault L G s e f \<and>
    (\<forall>file line. f = UseAfterFree file line \<longrightarrow>
       (\<exists>i j h. e = SysJobRun i \<and> find_job i (jobs (sys_inst s)) = Some j \<and> job_handle j = Some (Some h) \<and>
          db (database (sys_inst s)) \<noteq> Some h \<and> file = ''BerkeleyDB.cxx'' \<and> line = 48))"
proof -
  from event_lib.sys_do_good [OF assms(1,3) reach_sys_inv [OF assms(1,2)]]
  have "sys_fault L G s e f" by (simp add: good_def)
  then show ?thesis by (cases e) (auto simp: sys_fault_def check_fault_def dest: known_fault_no_UAF)
qed

theorem daemon_faults_witness:
  "sys_fault ref_lib sample_G (sample_start sample_knock_cfg) sample_knock (StdTerminate ''KnockListener.cxx'' 43)"
  using daemon_faults [OF ref_events.event_lib_axioms sample_knock_start] by simp

text \<open>
  C4. In every reachable state the two gauges of the metrics are the number of connections of
  all listeners and the number of those that have an open connection to a server.
\<close>

theorem counters_agree:
  assumes "event_lib L" and "reach sys_init (sys_step L G) s"
  shows "client_connections (metrics (sys_inst s)) = of_nat (length (all_conns s)) \<and>
    server_connections (metrics (sys_inst s)) =
      of_nat (length (filter (\<lambda>c. ev_IsDefined L (outgoing c)) (all_conns s)))"
proof -
  have "sum_list (map (server_count L) cs) = of_nat (length (filter (\<lambda>c. ev_IsDefined L (outgoing c)) cs))" for cs
    by (induction cs) (auto simp: server_count_def)
  with world_parts(4) [OF sys_inv_world [OF reach_sys_inv [OF assms]]] show ?thesis
    by (simp add: count_inv_def)
qed

theorem counters_agree_witness:
  "client_connections (metrics (sys_inst (sample_state 1 [] 2 2 sample_connecting))) = 1 \<and>
   server_connections (metrics (sys_inst (sample_state 1 [] 2 2 sample_connecting))) = 0"
  using counters_agree [OF ref_events.event_lib_axioms sample_reach_states(3)]
  by (simp add: sample_state_sel(7)) (simp add: sample_connecting_def sample_waiting_def sample_new_def sample_conn_def
      ref_lib_def)

text \<open>
  C5. In every reachable state no client address has more than 16 connections, accepted and
  delayed ones together, if it has an accounting key at all.
\<close>

theorem client_limit:
  assumes "event_lib L" and "reach sys_init (sys_step L G) s"
  shows "length (filter (\<lambda>a. acc_per_client a = Some k)
    (map accounting (all_conns s) @ map dc_accounting (all_delayed s))) \<le> 16"
proof -
  note inv = reach_sys_inv [OF assms]
  let ?as = "accs (all_conns s) (all_delayed s)" and ?m = "client_accounting (sys_inst s)"
  have reg: "registered ?as (registry ?m)"
    using world_parts(1) [OF sys_inv_world [OF inv]] by (simp add: accs_inv_def)
  let ?fs = "filter (\<lambda>a. acc_per_client a = Some k) ?as"
  have "length ?fs \<le> 16"
  proof (cases "registry ?m k")
    case None
    then have "\<forall>a \<in> set ?as. acc_per_client a \<noteq> Some k" using registered_pointer [OF reg] by fastforce
    then show ?thesis by (simp add: filter_False)
  next
    case (Some xs)
    then have "set (map acc_id ?fs) \<subseteq> set xs" using registered_pointer [OF reg] by fastforce
    moreover have "distinct (map acc_id ?fs)" using registered_distinct [OF reg] by (simp add: distinct_map_filter)
    ultimately have "length (map acc_id ?fs) \<le> length xs"
      by (metis card_length card_mono distinct_card finite_set le_trans)
    moreover have "length xs \<le> 16" using sys_inv_limit [OF inv] Some by (simp add: within_limit_def)
    ultimately show ?thesis by simp
  qed
  then show ?thesis by (simp add: accs_def)
qed

theorem client_limit_witness:
  "length (filter (\<lambda>a. acc_per_client a = Some 0xc0000201)
    (map accounting (all_conns (sample_state 0 [] 1 1 sample_new)) @
     map dc_accounting (all_delayed (sample_state 0 [] 1 1 sample_new)))) \<le> 16"
  by (rule client_limit [OF ref_events.event_lib_axioms sample_reach_states(1)])

text \<open>
  C2. Nobody reaches a server without a password check.  As long as no database file with
  a modification time of 0 is seen during a login: if a connection has been sent the server list, is
  connecting to a server, or is connected to one, then libsodium accepted the password of its login packet for the
  entry of the user in a file of the user database (the configured one or, with automatic reload, a copy), or the configuration
  has no user database; in particular this holds if the program ever tried to
  connect for it or has a socket to a server for it.
\<close>

theorem login_gate:
  assumes "event_lib L" and "reach sys_init (auth_step L G) s" and "c \<in> set (all_conns s)"
    and "state c \<in> {SERVER_LIST, CONNECTING, SEND_PLAY_SERVER, READY} \<or> connect c \<noteq> [] \<or> outgoing c \<noteq> []"
  shows "password_checked L G (database (sys_inst s)) (conn_user L c) (conn_pass L c) \<or>
    user_database (config (sys_inst s)) = []"
proof -
  note inv = reach_auth_inv [OF assms(1,2)]
  have "conn_inv L (config (sys_inst s)) c"
    using world_parts(5) [OF sys_inv_world [OF conjunct1 [OF inv]] assms(3)] .
  with assms(4) have "past_check c"
    by (auto simp: past_check_def conn_inv_def state_inv_def no_server_def)
  with inv assms(3) show ?thesis
    by (auto simp: auth_inv_def admitted_def intro: verified_checked db_inv_reached)
qed

theorem login_gate_witness:
  "password_checked ref_lib sample_G (database sample_inst) ''alice'' ''secret''"
proof -
  have "sample_connecting \<in> set (all_conns (sample_state 1 [] 2 2 sample_connecting))"
    by (simp add: sample_state_sel)
  moreover have "state sample_connecting = CONNECTING" by (simp add: sample_connecting_def)
  moreover have "user_database (config (sys_inst (sample_state 1 [] 2 2 sample_connecting))) \<noteq> []"
    by (simp add: sample_state_def sample_inst_def sample_cfg_def)
  ultimately show ?thesis
    using login_gate [OF ref_events.event_lib_axioms sample_reach_connecting, of sample_connecting]
      sample_credentials by (auto simp: sample_state_sel)
qed

text \<open>
  C6. In every reachable state, a connection that waits for login packets or for the client's
  choice of a server has a pending timeout; one that waits for the result of a
  check has a job in the queue that was not cancelled and will call it back; and one that
  waits for a server has a pending connect.
\<close>

theorem no_endless_wait:
  assumes "event_lib L" and "reach sys_init (sys_step L G) s" and "c \<in> set (all_conns s)"
  shows "(state c = INITIAL \<or> state c = SERVER_LIST \<longrightarrow> timer_IsPending L (timeout c)) \<and>
    (state c = CHECK_CREDENTIALS \<longrightarrow> (\<exists>i j. cancel_ptr c = Some i \<and> find_job i (jobs (sys_inst s)) = Some j \<and>
       \<not> job_canceled j \<and> job_callback j = CbConnection (acc_id (accounting c)) \<and>
       job_username j = conn_user L c \<and> job_password j = conn_pass L c)) \<and>
    (state c = CONNECTING \<longrightarrow> connect_IsPending L (connect c))"
proof -
  note W = world_parts [OF sys_inv_world [OF reach_sys_inv [OF assms(1,2)]]]
  have c: "conn_inv L (config (sys_inst s)) c" using W(5) assms(3) .
  have "\<exists>i j. cancel_ptr c = Some i \<and> find_job i (jobs (sys_inst s)) = Some j \<and> linked L c j"
    if "state c = CHECK_CREDENTIALS"
  proof -
    from c that have "cancel_ptr c \<noteq> None" by (simp add: conn_inv_def)
    with W(2) assms(3) obtain j where j: "j \<in> set (jobs (sys_inst s))" "linked L c j" by (auto simp: jobs_inv_def)
    with jobs_inv_find [OF W(2) j(1)] show ?thesis by (auto simp: linked_def)
  qed
  with c show ?thesis by (auto simp: conn_inv_def state_inv_def linked_def)
qed

theorem no_endless_wait_witness:
  "\<exists>i j. cancel_ptr sample_waiting = Some i \<and> find_job i [sample_check_job JobWaiting False] = Some j \<and>
     \<not> job_canceled j \<and> job_callback j = CbConnection 0"
proof -
  have "sample_waiting \<in> set (all_conns (sample_state 0 [sample_check_job JobWaiting False] 2 1 sample_waiting))"
    by (simp add: sample_state_sel)
  moreover have "state sample_waiting = CHECK_CREDENTIALS" "acc_id (accounting sample_waiting) = 0"
    by (simp_all add: sample_waiting_def sample_new_def)
  ultimately show ?thesis
    using no_endless_wait [OF ref_events.event_lib_axioms sample_reach_states(2), of sample_waiting]
    by (auto simp: sample_state_sel)
qed

text \<open>
  C7. From every reachable state that is still running, \<open>OnShutdown\<close> ends normally, deletes
  every connection and every delayed connection and leaves the cleanup timer
  disarmed, and no client has a registered connection any more; afterwards the destructor of the instance finds both gauges at zero, deletes every
  accounting object and closes every database handle.
\<close>

theorem shutdown_clean:
  assumes "event_lib L" and "reach sys_init (sys_step L G) s"
  shows "\<exists>t inst. OnShutdown L now s = Inr t \<and> all_conns t = [] \<and> all_delayed t = [] \<and>
    \<not> timer_IsPending L (cleanup_timer (client_accounting (sys_inst t))) \<and>
    (\<forall>k xs. registry (client_accounting (sys_inst t)) k = Some xs \<longrightarrow> xs = []) \<and>
    Instance_destroy L now' t = Inr inst \<and> entries (client_accounting inst) = [] \<and> open_handles (database inst) = []"
proof -
  let ?i = "(sys_inst s)\<lparr>knock_listeners := []\<rparr>"
  note inv = reach_sys_inv [OF assms]
  have "world_inv L ?i (all_conns s) (all_delayed s)"
    using sys_inv_world [OF inv] by (simp add: world_inv_def db_ok_def)
  with event_lib.destroy_listeners_world [OF assms(1), of ?i "sys_listeners s" now] sys_inv_limit [OF inv]
  obtain i where i: "destroy_listeners L now (sys_listeners s) ?i = Inr i" "world_inv L i [] []"
    by (auto simp: all_conns_def all_delayed_def)
  let ?t = "s\<lparr>sys_inst := i\<lparr>client_accounting := ClientAccountingMap_Shutdown (client_accounting i)\<rparr>,
              sys_listeners := [], sys_exporter := False, sys_down := True\<rparr>"
  have "OnShutdown L now s = Inr ?t" using i(1) by (simp add: OnShutdown_def Let_def)
  moreover have "client_connections (metrics i) = 0" "server_connections (metrics i) = 0"
    using world_parts(4) [OF i(2)] by (simp_all add: count_inv_def)
  moreover have "\<not> timer_IsPending L (cleanup_timer (ClientAccountingMap_Shutdown m))" for m
    using event_lib.axioms(2) [OF assms(1)] timers.timer_pending(3) by (simp add: ClientAccountingMap_Shutdown_def)
  moreover have "db_inv (database i)" using world_parts(6) [OF i(2)] by (simp add: db_ok_def)
  moreover have "xs = []" if "registry (client_accounting i) k = Some xs" for k xs
    using world_parts(1) [OF i(2)] that by (auto simp: accs_inv_def accs_def registered_def)
  ultimately show ?thesis
    by (auto simp: Instance_destroy_def all_conns_def all_delayed_def Let_def Database_destroy_closes
        ClientAccountingMap_destroy_def)
qed

theorem shutdown_clean_witness:
  "\<exists>t inst. OnShutdown ref_lib 5 (sample_state 1 [] 2 2 sample_connecting) = Inr t \<and> all_conns t = [] \<and>
     Instance_destroy ref_lib 6 t = Inr inst"
  using shutdown_clean [OF ref_events.event_lib_axioms sample_reach_states(3), of 5 6] by blast

text \<open>
  C14. Starting the program never stops at an assertion.  It enters its event loop exactly if there is at most one
  argument, the configuration file (the argument or the default one) can be read and is accepted, a
  user database without automatic reload can be opened, and the sockets can be created; otherwise it
  returns a failure.  The daemon then runs the configuration of the file, with one listener, and with a
  knock listener and an exporter if and only if they are configured.
\<close>

theorem main_starts_daemon:
  assumes "path = (if length argv = 2 then argv ! 1 else ''/etc/uologin.conf'')"
  shows "(if length argv \<le> 2 \<and> (\<exists>lines cfg. file path = Inr lines \<and> LoadConfigFile P lines = Inr cfg \<and>
             can_run cfg create db_open socks)
     then \<exists>s lines cfg. main P file argv create db_open socks = Inr (Inr s) \<and> sys_init s \<and>
       file path = Inr lines \<and> LoadConfigFile P lines = Inr cfg \<and> config (sys_inst s) = cfg \<and>
       sys_listeners s = [new_Listener] \<and> (RequireKnock (sys_inst s) \<longleftrightarrow> bind_address (knock_listener cfg) \<noteq> AddrNull) \<and>
       (sys_exporter s \<longleftrightarrow> bind_address (prometheus_exporter cfg) \<noteq> AddrNull)
     else main P file argv create db_open socks = Inr (Inl 1))"
proof (cases "length argv \<le> 2")
  case False
  then show ?thesis by (simp add: main_def ParseCommandLine_def)
next
  case True
  then have p: "ParseCommandLine argv = Inr \<lparr>config_path = path\<rparr>"
    using assms by (auto simp: ParseCommandLine_def Let_def)
  show ?thesis
  proof (cases "bind_r (file path) (LoadConfigFile P)")
    case (Inl e)
    then have "main P file argv create db_open socks = Inr (Inl 1)" by (simp add: main_def p)
    moreover have "\<not> (\<exists>lines cfg. file path = Inr lines \<and> LoadConfigFile P lines = Inr cfg)" using Inl by auto
    ultimately show ?thesis by auto
  next
    case (Inr cfg)
    then obtain lines where l: "file path = Inr lines" "LoadConfigFile P lines = Inr cfg"
      by (auto simp: res_simps)
    have m: "main P file argv create db_open socks = (case Run cfg create db_open socks of
        Inl (Thrown e) \<Rightarrow> Inr (Inl 1) | Inl f \<Rightarrow> Inl f | Inr s \<Rightarrow> Inr (Inr s))" using Inr by (simp add: main_def p)
    show ?thesis
      using Run_result [of cfg create db_open socks] True l
      by (auto simp: m intro: sys_initI split: if_splits)
  qed
qed

theorem main_starts_daemon_witness:
  "\<exists>s. main ref_config_lib (\<lambda>p. if p = ''/etc/uologin.conf'' then Inr sample_lines else Inl (ErrnoError ''open'' 2))
       [''uologin''] (0, 7) (\<lambda>_. 0) sample_sockets = Inr (Inr s) \<and> \<not> RequireKnock (sys_inst s) \<and> sys_exporter s"
proof -
  let ?file = "\<lambda>p. if p = ''/etc/uologin.conf'' then Inr sample_lines else Inl (ErrnoError ''open'' 2)"
  obtain cfg where c: "LoadConfigFile ref_config_lib sample_lines = Inr cfg"
    "bind_address (prometheus_exporter cfg) \<noteq> AddrNull" "bind_address (knock_listener cfg) = AddrNull"
    "user_database cfg = []"
    by (simp add: LoadConfigFile_def sample_lines_def ref_config_lib_def ParseLine_def Finish_def new_Config_def Config_defaults_def
        default_SocketConfig_def Let_def)
  then have "can_run cfg (0, 7) (\<lambda>_. 0) sample_sockets" by (simp add: can_run_def sample_sockets_def)
  with main_starts_daemon [of "''/etc/uologin.conf''" "[''uologin'']" ?file ref_config_lib "(0, 7)" "\<lambda>_. 0" sample_sockets] c
  show ?thesis by auto
qed

end
